theory Spec2Isabelle
  imports Main "HOL-Library.Word" "HOL-Library.Multiset"
begin

section \<open>Data model\<close>

text \<open>
  The program downloads a fixed list of archives over HTTPS, at most five at a time,
  retries failed downloads, unpacks each archive and reports one log line per file.
  The embedding follows \<^verbatim>\<open>files/manager.py\<close> (class FileManager),
  \<^verbatim>\<open>files/controller.py\<close> (class FileController) and
  \<^verbatim>\<open>files/logger_view.py\<close> (class LoggerView).

  Python exceptions are values. Only instances of \<^verbatim>\<open>Exception\<close> are modelled:
  signals that derive from \<^verbatim>\<open>BaseException\<close> alone (task cancellation, interpreter
  exit) are no failures of a download or of an extraction and are left out.
\<close>

type_synonym bytes = "8 word list"

datatype exn =
    FileNotFoundError string
      \<comment> \<open>builtin; the argument is the message\<close>
  | ClientResponseError nat
      \<comment> \<open>aiohttp, raised by \<^verbatim>\<open>raise_for_status\<close>; the argument is the status\<close>
  | ClientConnectorError
      \<comment> \<open>aiohttp, the connection could not be established\<close>
  | TimeoutError
      \<comment> \<open>\<^verbatim>\<open>asyncio.TimeoutError\<close>, the total timeout of 600 seconds ran out\<close>
  | ConnectionError string exn
      \<comment> \<open>builtin, with its subclasses; manager.py:75 raises it with the file name and the caught error\<close>
  | RetryError exn
      \<comment> \<open>tenacity; the argument is \<^verbatim>\<open>last_attempt.exception()\<close>\<close>
  | OtherError string
      \<comment> \<open>an instance of any other subclass of \<^verbatim>\<open>Exception\<close> (BadZipFile, OSError, ...)\<close>

datatype level = INFO | ERROR

text \<open>
  The messages of the controller, one constructor per f-string of controller.py; the
  arguments are the values the f-string interpolates.
\<close>

datatype message =
    Starting                           \<comment> \<open>\<^verbatim>\<open>Starting to process files\<close>\<close>
  | Finished                           \<comment> \<open>\<^verbatim>\<open>Finished processing files\<close>\<close>
  | Processed string                   \<comment> \<open>\<^verbatim>\<open>Processed {file_name}\<close>\<close>
  | NotFoundOnServer string            \<comment> \<open>\<^verbatim>\<open>{file_name} not found on the server.\<close>\<close>
  | NotFoundAfterRetries string        \<comment> \<open>\<^verbatim>\<open>{file_name} not found after retries.\<close>\<close>
  | UnexpectedRetryError string exn    \<comment> \<open>\<^verbatim>\<open>Unexpected retry error with {file_name}: {error}\<close>\<close>
  | ConnectionErrorWith string exn     \<comment> \<open>\<^verbatim>\<open>Connection error with {file_name}: {error}\<close>\<close>
  | UnexpectedError string exn         \<comment> \<open>\<^verbatim>\<open>Unexpected error with {file_name}: {error}\<close>\<close>

text \<open>
  The part of the world the program reads and writes: the files on disk (a map from path
  to contents), the calls of \<^verbatim>\<open>file.write\<close> made so far (path and chunk, in order),
  the URIs requested so far (one per fetch attempt), the seconds tenacity slept between
  attempts, and the records handed to the logger.
\<close>

record world =
  files :: "string \<rightharpoonup> bytes"
  writes :: "(string \<times> bytes) list"
  requests :: "string list"
  sleeps :: "nat list"
  logged :: "(level \<times> message) list"

text \<open>
  What the network does on one fetch attempt: \<^verbatim>\<open>session.get\<close> raises, or it returns a
  response. A response has a status; opening the local file may raise; the stream
  delivers its bytes in stretches and then either ends or raises \<open>stream_error\<close>.
  \<open>arrivals\<close> lists the stretches in order, a stretch being the bytes that are read from
  the buffer of the stream between two moments at which the buffer is empty. The body of
  the response is all of these bytes.
\<close>

record response =
  status :: nat
  open_error :: "exn option"
  arrivals :: "bytes list"
  stream_error :: "exn option"

definition body :: "response \<Rightarrow> bytes" where
  "body r = concat (arrivals r)"

datatype get_outcome = GetRaises exn | GetReturns response

section \<open>FileManager\<close>

definition BASE_URI :: "string \<Rightarrow> string" where
  "BASE_URI name = ''https://divvy-tripdata.s3.amazonaws.com/'' @ name"

text \<open>\<^verbatim>\<open>os.path.join\<close> of two components (posixpath).\<close>

definition os_path_join :: "string \<Rightarrow> string \<Rightarrow> string" where
  "os_path_join a b =
     (if take 1 b = ''/'' then b
      else if a = [] \<or> last a = CHR ''/'' then a @ b
      else a @ ''/'' @ b)"

text \<open>
  \<^verbatim>\<open>StreamReader.read(n)\<close>, called until one stretch is used up: a call hands over the
  bytes in the buffer, and at most \<open>n\<close> of them.
\<close>

function read_upto :: "nat \<Rightarrow> bytes \<Rightarrow> bytes list" where
  "read_upto n buffer =
     (if n = 0 \<or> buffer = [] then [] else take n buffer # read_upto n (drop n buffer))"
  by pat_completeness auto
termination
  by (relation "measure (\<lambda>(n, buffer). length buffer)") auto

declare read_upto.simps [simp del]

text \<open>
  \<^verbatim>\<open>response.content.iter_chunked(n)\<close>: a chunk is what one read hands over, so it has
  at most \<open>n\<close> bytes and is cut where the data arrived; the iteration ends with the
  stream.
\<close>

definition iter_chunked :: "nat \<Rightarrow> bytes list \<Rightarrow> bytes list" where
  "iter_chunked n arrived = concat (map (read_upto n) arrived)"

text \<open>
  \<^verbatim>\<open>aiofiles.open(path, 'wb')\<close> creates the file or empties it; \<^verbatim>\<open>file.write(chunk)\<close>
  appends the chunk.
\<close>

definition file_open_wb :: "string \<Rightarrow> world \<Rightarrow> world" where
  "file_open_wb path w = w\<lparr>files := (files w)(path \<mapsto> [])\<rparr>"

definition file_write :: "string \<Rightarrow> bytes \<Rightarrow> world \<Rightarrow> world" where
  "file_write path chunk w =
     w\<lparr>files := (files w)(path \<mapsto> (case files w path of None \<Rightarrow> [] | Some content \<Rightarrow> content) @ chunk),
       writes := writes w @ [(path, chunk)]\<rparr>"

text \<open>The loop of manager.py:70-72.\<close>

fun write_chunks :: "string \<Rightarrow> bytes list \<Rightarrow> world \<Rightarrow> world" where
  "write_chunks path [] w = w"
| "write_chunks path (chunk # chunks) w =
     write_chunks path chunks (if chunk \<noteq> [] then file_write path chunk w else w)"

text \<open>The \<^verbatim>\<open>try\<close> block of \<^verbatim>\<open>download_file\<close>, manager.py:61-72.\<close>

definition download_try ::
  "get_outcome \<Rightarrow> string \<Rightarrow> string \<Rightarrow> world \<Rightarrow> (exn + unit) \<times> world"
where
  "download_try got file_name zip_path w =
     (case got of
        GetRaises e \<Rightarrow> (Inl e, w)
      | GetReturns r \<Rightarrow>
          if status r = 404 then
            (Inl (FileNotFoundError (''File '' @ file_name @ '' not found on the server.'')), w)
          else if 400 \<le> status r then (Inl (ClientResponseError (status r)), w)
          else
            (case open_error r of
               Some e \<Rightarrow> (Inl e, w)
             | None \<Rightarrow>
                 let w' = write_chunks zip_path (iter_chunked 1024 (arrivals r)) (file_open_wb zip_path w)
                 in (case stream_error r of
                       Some e \<Rightarrow> (Inl e, w')
                     | None \<Rightarrow> (Inr (), w'))))"

text \<open>The classes named by the \<^verbatim>\<open>except\<close> clause of manager.py:74.\<close>

fun caught_at_74 :: "exn \<Rightarrow> bool" where
  "caught_at_74 (ClientResponseError _) = True"
| "caught_at_74 ClientConnectorError = True"
| "caught_at_74 TimeoutError = True"
| "caught_at_74 _ = False"

text \<open>
  One call of the undecorated \<^verbatim>\<open>download_file\<close>, manager.py:55-77. \<open>server\<close> is what
  the network answers to a URI on this attempt.
\<close>

definition download_attempt ::
  "string \<Rightarrow> (string \<Rightarrow> get_outcome) \<Rightarrow> string \<Rightarrow> world \<Rightarrow> (exn + string) \<times> world"
where
  "download_attempt download_dir server file_name w =
     (let uri = BASE_URI file_name;
          zip_path = os_path_join download_dir file_name;
          w1 = w\<lparr>requests := requests w @ [uri]\<rparr>;
          (r, w2) = download_try (server uri) file_name zip_path w1
      in case r of
           Inl e \<Rightarrow>
             if caught_at_74 e then (Inl (ConnectionError file_name e), w2) else (Inl e, w2)
         | Inr _ \<Rightarrow> (Inr zip_path, w2))"

subsection \<open>The retry decorator\<close>

text \<open>
  \<^verbatim>\<open>@retry(stop=stop_after_attempt(3), wait=wait_exponential(multiplier=1, min=1, max=10))\<close>
  at manager.py:45. The decorator is tenacity's; its loop is written out here as the
  library runs it. An attempt that raises is retried when the \<open>retry\<close> predicate accepts
  the exception; when the predicate rejects it the exception is raised as it is. Once
  \<open>attempt_number\<close> has reached \<open>max_attempt_number\<close> the loop raises RetryError around
  the last exception (\<^verbatim>\<open>reraise\<close> is False); otherwise it sleeps \<open>wait attempt_number\<close>
  seconds and runs the next attempt.
\<close>

definition wait_exponential :: "nat \<Rightarrow> nat \<Rightarrow> nat \<Rightarrow> nat \<Rightarrow> nat" where
  "wait_exponential multiplier mn mx attempt_number =
     max (max 0 mn) (min (multiplier * 2 ^ (attempt_number - 1)) mx)"

function retrying ::
  "(exn \<Rightarrow> bool) \<Rightarrow> nat \<Rightarrow> (nat \<Rightarrow> nat) \<Rightarrow> (nat \<Rightarrow> world \<Rightarrow> (exn + 'a) \<times> world) \<Rightarrow>
   nat \<Rightarrow> world \<Rightarrow> (exn + 'a) \<times> world"
where
  "retrying retry max_attempt_number wait fn attempt_number w =
     (case fn attempt_number w of
        (Inr result, w') \<Rightarrow> (Inr result, w')
      | (Inl e, w') \<Rightarrow>
          if \<not> retry e then (Inl e, w')
          else if max_attempt_number \<le> attempt_number then (Inl (RetryError e), w')
          else retrying retry max_attempt_number wait fn (attempt_number + 1)
                 (w'\<lparr>sleeps := sleeps w' @ [wait attempt_number]\<rparr>))"
  by pat_completeness auto
termination
  by (relation "measure (\<lambda>(retry, m, wait, fn, n, w). m - n)") auto

declare retrying.simps [simp del]

text \<open>
  The decorator is given no \<^verbatim>\<open>retry\<close> argument, so the library's default applies:
  \<^verbatim>\<open>retry_if_exception_type()\<close>, which accepts every instance of Exception.
\<close>

definition retry_if_exception_type :: "exn \<Rightarrow> bool" where
  "retry_if_exception_type e = True"

text \<open>
  The decorated \<^verbatim>\<open>download_file\<close>. \<open>net uri k\<close> is what the network answers to \<open>uri\<close>
  on the \<open>k\<close>-th attempt of that download.
\<close>

definition download_file ::
  "string \<Rightarrow> (string \<Rightarrow> nat \<Rightarrow> get_outcome) \<Rightarrow> string \<Rightarrow> world \<Rightarrow> (exn + string) \<times> world"
where
  "download_file download_dir net file_name w =
     retrying retry_if_exception_type 3 (wait_exponential 1 1 10)
       (\<lambda>k. download_attempt download_dir (\<lambda>uri. net uri k) file_name) 1 w"

subsection \<open>Extraction\<close>

text \<open>
  \<^verbatim>\<open>extract_zip\<close>, manager.py:79-87. Decoding the archive is the zipfile library's:
  \<open>unzip dir archive\<close> gives the files that \<^verbatim>\<open>ZipFile(...)\<close> and
  \<^verbatim>\<open>extractall(dir)\<close> write (path and contents, in order) and the exception they raise,
  if any. Opening a path that is not on disk raises FileNotFoundError, and so does
  \<^verbatim>\<open>os.remove\<close>.
\<close>

type_synonym unzipper = "string \<Rightarrow> bytes \<Rightarrow> (string \<times> bytes) list \<times> exn option"

fun write_entries :: "(string \<rightharpoonup> bytes) \<Rightarrow> (string \<times> bytes) list \<Rightarrow> (string \<rightharpoonup> bytes)" where
  "write_entries fs [] = fs"
| "write_entries fs ((path, content) # entries) = write_entries (fs(path \<mapsto> content)) entries"

definition os_remove :: "string \<Rightarrow> (string \<rightharpoonup> bytes) \<Rightarrow> (exn + unit) \<times> (string \<rightharpoonup> bytes)" where
  "os_remove path fs =
     (case fs path of
        None \<Rightarrow> (Inl (FileNotFoundError path), fs)
      | Some _ \<Rightarrow> (Inr (), fs(path := None)))"

definition extract_zip ::
  "unzipper \<Rightarrow> string \<Rightarrow> string \<Rightarrow> (string \<rightharpoonup> bytes) \<Rightarrow> (exn + unit) \<times> (string \<rightharpoonup> bytes)"
where
  "extract_zip unzip download_dir file_path fs =
     (case fs file_path of
        None \<Rightarrow> (Inl (FileNotFoundError file_path), fs)
      | Some archive \<Rightarrow>
          (case unzip download_dir archive of
             (entries, Some e) \<Rightarrow> (Inl e, write_entries fs entries)
           | (entries, None) \<Rightarrow> os_remove file_path (write_entries fs entries)))"

text \<open>
  \<^verbatim>\<open>extract_zip_in_thread\<close>, manager.py:89-92: the executor runs \<^verbatim>\<open>extract_zip\<close> and
  the awaiting coroutine gets its result or its exception.
\<close>

definition extract_zip_in_thread ::
  "unzipper \<Rightarrow> string \<Rightarrow> string \<Rightarrow> world \<Rightarrow> (exn + unit) \<times> world"
where
  "extract_zip_in_thread unzip download_dir file_path w =
     (case extract_zip unzip download_dir file_path (files w) of
        (r, fs') \<Rightarrow> (r, w\<lparr>files := fs'\<rparr>))"

section \<open>LoggerView\<close>

definition log_info :: "message \<Rightarrow> world \<Rightarrow> world" where
  "log_info m w = w\<lparr>logged := logged w @ [(INFO, m)]\<rparr>"

definition log_error :: "message \<Rightarrow> world \<Rightarrow> world" where
  "log_error m w = w\<lparr>logged := logged w @ [(ERROR, m)]\<rparr>"

section \<open>FileController\<close>

definition FILE_NAMES :: "string list" where
  "FILE_NAMES =
     [''Divvy_Trips_2018_Q4.zip'',
      ''Divvy_Trips_2019_Q1.zip'',
      ''Divvy_Trips_2019_Q2.zip'',
      ''Divvy_Trips_2019_Q3.zip'',
      ''Divvy_Trips_2019_Q4.zip'',
      ''Divvy_Trips_2020_Q1.zip'',
      ''Divvy_Trips_2220_Q1.zip'']"

text \<open>\<^verbatim>\<open>FileManager('downloads')\<close>, controller.py:23.\<close>

definition download_dir :: string where
  "download_dir = ''downloads''"

text \<open>
  The \<^verbatim>\<open>except\<close> clauses of \<^verbatim>\<open>process_file\<close>, controller.py:42-57, tried in the order
  of the source. An exception that no clause names would leave the coroutine (\<open>Inl\<close>).
\<close>

fun except_clauses :: "string \<Rightarrow> exn \<Rightarrow> world \<Rightarrow> (exn + unit) \<times> world" where
  "except_clauses file_name (FileNotFoundError m) w =
     (Inr (), log_error (NotFoundOnServer file_name) w)"
| "except_clauses file_name (RetryError cause) w =
     (case cause of
        FileNotFoundError _ \<Rightarrow> (Inr (), log_error (NotFoundAfterRetries file_name) w)
      | _ \<Rightarrow> (Inr (), log_error (UnexpectedRetryError file_name (RetryError cause)) w))"
| "except_clauses file_name (ConnectionError f e) w =
     (Inr (), log_error (ConnectionErrorWith file_name (ConnectionError f e)) w)"
| "except_clauses file_name e w =
     (Inr (), log_error (UnexpectedError file_name e) w)"

text \<open>The classes named by an \<^verbatim>\<open>except\<close> clause before the last one, controller.py:42-54.\<close>

fun named_class :: "exn \<Rightarrow> bool" where
  "named_class (FileNotFoundError _) = True"
| "named_class (RetryError _) = True"
| "named_class (ConnectionError _ _) = True"
| "named_class _ = False"

text \<open>
  The \<^verbatim>\<open>try\<close> block of \<^verbatim>\<open>process_file\<close>, controller.py:33-40, once the semaphore has
  let the coroutine in; the semaphore itself is part of the scheduler model below.
\<close>

definition process_file_try ::
  "(string \<Rightarrow> nat \<Rightarrow> get_outcome) \<Rightarrow> unzipper \<Rightarrow> string \<Rightarrow> world \<Rightarrow> (exn + unit) \<times> world"
where
  "process_file_try net unzip file_name w =
     (case download_file download_dir net file_name w of
        (Inl e, w1) \<Rightarrow> (Inl e, w1)
      | (Inr zip_path, w1) \<Rightarrow>
          (case extract_zip_in_thread unzip download_dir zip_path w1 of
             (Inl e, w2) \<Rightarrow> (Inl e, w2)
           | (Inr _, w2) \<Rightarrow> (Inr (), log_info (Processed file_name) w2)))"

definition process_file ::
  "(string \<Rightarrow> nat \<Rightarrow> get_outcome) \<Rightarrow> unzipper \<Rightarrow> string \<Rightarrow> world \<Rightarrow> (exn + unit) \<times> world"
where
  "process_file net unzip file_name w =
     (case process_file_try net unzip file_name w of
        (Inr _, w') \<Rightarrow> (Inr (), w')
      | (Inl e, w') \<Rightarrow> except_clauses file_name e w')"

subsection \<open>The event loop\<close>

text \<open>
  \<^verbatim>\<open>process_files\<close> creates one coroutine per file name and awaits them with
  \<^verbatim>\<open>asyncio.gather\<close>; the coroutines interleave at their \<^verbatim>\<open>await\<close>s. The model is a
  scheduler: a state of the controller, and a step that lets the main coroutine or the
  coroutine of one file run. A step of a file's coroutine is one phase of it as a whole:
  taking a slot, the download with all its attempts, the extraction. The interleaving
  inside a phase changes neither the semaphore nor the log. A coroutine is
  \<^item> \<open>Pending\<close> before \<^verbatim>\<open>async with self.semaphore\<close> has let it in,
  \<^item> \<open>Downloading\<close> while it holds the semaphore and awaits \<^verbatim>\<open>download_file\<close>,
  \<^item> \<open>Extracting\<close> once it has left the \<^verbatim>\<open>async with\<close> block with a path,
  \<^item> \<open>Done\<close> once it has returned, \<open>Escaped\<close> if an exception left it.
  \<open>semaphore\<close> is the counter of \<^verbatim>\<open>asyncio.Semaphore(5)\<close>: acquiring needs a positive
  counter and decrements it, leaving the block increments it.
\<close>

datatype phase = Pending | Downloading | Extracting string | Done | Escaped exn

datatype main_phase = NotStarted | Gathering | Returned | Aborted exn

record controller =
  shared :: world
  semaphore :: nat
  tasks :: "(string \<times> phase) list"
  main :: main_phase

datatype pick = Main | Task nat

definition init_controller :: "world \<Rightarrow> controller" where
  "init_controller w = \<lparr>shared = w, semaphore = 5, tasks = [], main = NotStarted\<rparr>"

fun finish :: "exn + unit \<Rightarrow> phase" where
  "finish (Inr _) = Done"
| "finish (Inl e) = Escaped e"

fun escaped :: "(string \<times> phase) list \<Rightarrow> exn option" where
  "escaped [] = None"
| "escaped ((file_name, Escaped e) # ts) = Some e"
| "escaped (t # ts) = escaped ts"

text \<open>
  The main coroutine, \<^verbatim>\<open>process_files\<close> over \<open>names\<close> (controller.py:59-74): it logs the
  start and creates the coroutines; \<^verbatim>\<open>gather\<close> then suspends it until every coroutine
  has returned, or raises the exception that left one of them. Directories are not part
  of the files modelled, so \<^verbatim>\<open>ensure_dir_exists\<close> changes nothing here.
\<close>

definition main_step :: "string list \<Rightarrow> controller \<Rightarrow> controller" where
  "main_step names c =
     (case main c of
        NotStarted \<Rightarrow>
          c\<lparr>shared := log_info Starting (shared c),
            tasks := map (\<lambda>file_name. (file_name, Pending)) names,
            main := Gathering\<rparr>
      | Gathering \<Rightarrow>
          (case escaped (tasks c) of
             Some e \<Rightarrow> c\<lparr>main := Aborted e\<rparr>
           | None \<Rightarrow>
               if list_all (\<lambda>(file_name, ph). ph = Done) (tasks c)
               then c\<lparr>shared := log_info Finished (shared c), main := Returned\<rparr>
               else c)
      | Returned \<Rightarrow> c
      | Aborted e \<Rightarrow> c)"

text \<open>The coroutine of the \<open>i\<close>-th file, \<^verbatim>\<open>process_file\<close>, run to its next suspension.\<close>

definition task_step ::
  "(string \<Rightarrow> nat \<Rightarrow> get_outcome) \<Rightarrow> unzipper \<Rightarrow> nat \<Rightarrow> controller \<Rightarrow> controller"
where
  "task_step net unzip i c =
     (if length (tasks c) \<le> i then c
      else
        (case tasks c ! i of
           (file_name, Pending) \<Rightarrow>
             if semaphore c = 0 then c
             else c\<lparr>semaphore := semaphore c - 1,
                    tasks := (tasks c)[i := (file_name, Downloading)]\<rparr>
         | (file_name, Downloading) \<Rightarrow>
             (case download_file download_dir net file_name (shared c) of
                (Inr zip_path, w) \<Rightarrow>
                  c\<lparr>shared := w, semaphore := semaphore c + 1,
                    tasks := (tasks c)[i := (file_name, Extracting zip_path)]\<rparr>
              | (Inl e, w) \<Rightarrow>
                  (case except_clauses file_name e w of
                     (r, w') \<Rightarrow>
                       c\<lparr>shared := w', semaphore := semaphore c + 1,
                         tasks := (tasks c)[i := (file_name, finish r)]\<rparr>))
         | (file_name, Extracting zip_path) \<Rightarrow>
             (case extract_zip_in_thread unzip download_dir zip_path (shared c) of
                (Inr _, w) \<Rightarrow>
                  c\<lparr>shared := log_info (Processed file_name) w,
                    tasks := (tasks c)[i := (file_name, Done)]\<rparr>
              | (Inl e, w) \<Rightarrow>
                  (case except_clauses file_name e w of
                     (r, w') \<Rightarrow>
                       c\<lparr>shared := w', tasks := (tasks c)[i := (file_name, finish r)]\<rparr>))
         | (file_name, Done) \<Rightarrow> c
         | (file_name, Escaped e) \<Rightarrow> c))"

fun step ::
  "(string \<Rightarrow> nat \<Rightarrow> get_outcome) \<Rightarrow> unzipper \<Rightarrow> string list \<Rightarrow> controller \<Rightarrow> pick \<Rightarrow> controller"
where
  "step net unzip names c Main = main_step names c"
| "step net unzip names c (Task i) = task_step net unzip i c"

text \<open>A run under a schedule: the picks of the event loop, in order.\<close>

definition run ::
  "(string \<Rightarrow> nat \<Rightarrow> get_outcome) \<Rightarrow> unzipper \<Rightarrow> string list \<Rightarrow> pick list \<Rightarrow> controller \<Rightarrow> controller"
where
  "run net unzip names schedule c = foldl (step net unzip names) c schedule"

text \<open>The number of downloads in flight, and the file a message is about.\<close>

definition in_flight :: "controller \<Rightarrow> nat" where
  "in_flight c = length (filter (\<lambda>(file_name, ph). ph = Downloading) (tasks c))"

fun subject :: "message \<Rightarrow> string option" where
  "subject Starting = None"
| "subject Finished = None"
| "subject (Processed n) = Some n"
| "subject (NotFoundOnServer n) = Some n"
| "subject (NotFoundAfterRetries n) = Some n"
| "subject (UnexpectedRetryError n e) = Some n"
| "subject (ConnectionErrorWith n e) = Some n"
| "subject (UnexpectedError n e) = Some n"

subsection \<open>What holds in every state of a run\<close>

text \<open>The files whose coroutine has returned, and what holds in every state of a run.\<close>

definition done_names :: "controller \<Rightarrow> string list" where
  "done_names c = map fst (filter (\<lambda>(file_name, ph). ph = Done) (tasks c))"

definition invariant :: "world \<Rightarrow> string list \<Rightarrow> controller \<Rightarrow> bool" where
  "invariant w0 names c \<longleftrightarrow>
     semaphore c + in_flight c = 5 \<and>
     (\<forall>t\<in>set (tasks c). \<forall>e. snd t \<noteq> Escaped e) \<and>
     (case main c of
        NotStarted \<Rightarrow> tasks c = [] \<and> logged (shared c) = logged w0
      | Gathering \<Rightarrow>
          map fst (tasks c) = names \<and>
          (\<exists>items. logged (shared c) = logged w0 @ (INFO, Starting) # items \<and>
             mset (map (subject \<circ> snd) items) = mset (map Some (done_names c)))
      | Returned \<Rightarrow>
          map fst (tasks c) = names \<and> list_all (\<lambda>(file_name, ph). ph = Done) (tasks c) \<and>
          (\<exists>items. logged (shared c) = logged w0 @ (INFO, Starting) # items @ [(INFO, Finished)] \<and>
             mset (map (subject \<circ> snd) items) = mset (map Some names))
      | Aborted e \<Rightarrow> False)"

text \<open>The steps a coroutine still has to take, for the proof that a run can always finish.\<close>

fun weight :: "phase \<Rightarrow> nat" where
  "weight Pending = 3"
| "weight Downloading = 2"
| "weight (Extracting zip_path) = 1"
| "weight Done = 0"
| "weight (Escaped e) = 0"

definition remaining :: "controller \<Rightarrow> nat" where
  "remaining c = sum_list (map (\<lambda>(file_name, ph). weight ph) (tasks c))"

section \<open>Concrete inputs\<close>

text \<open>
  The inputs of the examples: a world with no files and no history, networks that answer
  every attempt in one way, archive decoders that write nothing, and schedules.
\<close>

definition empty_world :: world where
  "empty_world = \<lparr>files = Map.empty, writes = [], requests = [], sleeps = [], logged = []\<rparr>"

definition respond :: "nat \<Rightarrow> bytes \<Rightarrow> get_outcome" where
  "respond s b = GetReturns \<lparr>status = s, open_error = None, arrivals = [b], stream_error = None\<rparr>"

definition unzip_nothing :: unzipper where
  "unzip_nothing dir archive = ([], None)"

definition answer_404 :: "string \<Rightarrow> nat \<Rightarrow> get_outcome" where
  "answer_404 uri k = respond 404 []"

definition refuse_connection :: "string \<Rightarrow> nat \<Rightarrow> get_outcome" where
  "refuse_connection uri k = GetRaises ClientConnectorError"

definition answer_ok :: "string \<Rightarrow> nat \<Rightarrow> get_outcome" where
  "answer_ok uri k = respond 200 [80, 75, 3, 4]"

definition interrupted_once :: "string \<Rightarrow> nat \<Rightarrow> get_outcome" where
  "interrupted_once uri k =
     (if k = 1
      then GetReturns \<lparr>status = 200, open_error = None, arrivals = [[80, 75]], stream_error = Some TimeoutError\<rparr>
      else respond 200 [80, 75, 3, 4])"

definition unzip_missing_member :: unzipper where
  "unzip_missing_member dir archive = ([], Some (FileNotFoundError ''downloads/trips/Divvy_Trips_2019_Q3.csv''))"

definition unzip_bad_archive :: unzipper where
  "unzip_bad_archive dir archive = ([], Some (OtherError ''BadZipFile: File is not a zip file''))"

definition unzip_connection_reset :: unzipper where
  "unzip_connection_reset dir archive =
     ([], Some (ConnectionError ''[Errno 104] Connection reset by peer'' (OtherError ''OSError'')))"

text \<open>A server that has every file of the list but the one with the wrong name.\<close>

definition divvy_server :: "string \<Rightarrow> nat \<Rightarrow> get_outcome" where
  "divvy_server uri k =
     (if uri = BASE_URI ''Divvy_Trips_2220_Q1.zip'' then respond 404 [] else respond 200 [80, 75, 3, 4])"

text \<open>Two schedules: the coroutines taken in turn from the last to the first, and one after the other.\<close>

definition in_turn :: "pick list" where
  "in_turn =
     [Main,
      Task 6, Task 5, Task 4, Task 3, Task 2, Task 1, Task 0,
      Task 6, Task 5, Task 4, Task 3, Task 2, Task 1, Task 0,
      Task 6, Task 5, Task 4, Task 3, Task 2, Task 1, Task 0,
      Task 6, Task 5, Task 4, Task 3, Task 2, Task 1, Task 0,
      Main]"

definition one_by_one :: "pick list" where
  "one_by_one =
     [Main,
      Task 0, Task 0, Task 0,
      Task 1, Task 1, Task 1,
      Task 2, Task 2, Task 2,
      Task 3, Task 3, Task 3,
      Task 4, Task 4, Task 4,
      Task 5, Task 5, Task 5,
      Task 6, Task 6, Task 6,
      Main]"

definition answer_in_pieces :: "string \<Rightarrow> nat \<Rightarrow> get_outcome" where
  "answer_in_pieces uri k =
     GetReturns \<lparr>status = 200, open_error = None, arrivals = [[80, 75], [3, 4]], stream_error = None\<rparr>"

definition interrupted_then_unavailable :: "string \<Rightarrow> nat \<Rightarrow> get_outcome" where
  "interrupted_then_unavailable uri k =
     (if k = 1
      then GetReturns \<lparr>status = 200, open_error = None, arrivals = [[80, 75]], stream_error = Some TimeoutError\<rparr>
      else respond 503 [])"

section \<open>Properties of the fetch\<close>

lemma read_upto_concat: "concat (read_upto n buffer) = (if n = 0 then [] else buffer)"
proof (induction n buffer rule: read_upto.induct)
  case (1 n buffer)
  show ?case
  proof (cases "n = 0 \<or> buffer = []")
    case True
    then show ?thesis by (auto simp: read_upto.simps)
  next
    case False
    with "1" show ?thesis
      by (subst read_upto.simps) simp
  qed
qed

lemma read_upto_chunk: "c \<in> set (read_upto n buffer) \<Longrightarrow> c \<noteq> [] \<and> length c \<le> n"
proof (induction n buffer rule: read_upto.induct)
  case (1 n buffer)
  show ?case
  proof (cases "n = 0 \<or> buffer = []")
    case True
    with "1.prems" show ?thesis by (simp add: read_upto.simps)
  next
    case False
    from "1.prems" False have "c = take n buffer \<or> c \<in> set (read_upto n (drop n buffer))"
      by (subst (asm) read_upto.simps) simp
    with "1.IH" False show ?thesis by auto
  qed
qed

lemma iter_chunked_concat: "0 < n \<Longrightarrow> concat (iter_chunked n arrived) = concat arrived"
  by (induction arrived) (simp_all add: iter_chunked_def read_upto_concat)

lemma iter_chunked_chunk: "c \<in> set (iter_chunked n arrived) \<Longrightarrow> c \<noteq> [] \<and> length c \<le> n"
  using read_upto_chunk by (auto simp: iter_chunked_def)

text \<open>Every cut of a body into chunks of one to \<open>n\<close> bytes is the result of some arrival.\<close>

lemma iter_chunked_any:
  assumes "0 < n" and "\<forall>c\<in>set chunks. c \<noteq> [] \<and> length c \<le> n"
  shows "iter_chunked n chunks = chunks"
proof -
  have one: "read_upto n c = [c]" if "c \<noteq> []" and "length c \<le> n" for c
    using that assms(1) by (subst read_upto.simps) (simp add: read_upto.simps)
  from assms(2) show ?thesis
    by (induction chunks) (simp_all add: iter_chunked_def one)
qed

lemma body_literal [simp]:
  "body \<lparr>status = s, open_error = oe, arrivals = a, stream_error = se\<rparr> = concat a"
  by (simp add: body_def)

lemma write_chunks_world:
  "files w p = Some content \<Longrightarrow>
   write_chunks p chunks w =
     w\<lparr>files := (files w)(p \<mapsto> content @ concat chunks),
       writes := writes w @ map (Pair p) (filter (\<lambda>c. c \<noteq> []) chunks)\<rparr>"
proof (induction chunks arbitrary: w content)
  case Nil
  then have "(files w)(p \<mapsto> content) = files w"
    by (simp add: fun_upd_idem)
  then show ?case by simp
next
  case (Cons chunk chunks)
  show ?case
  proof (cases "chunk = []")
    case True
    with Cons show ?thesis by simp
  next
    case False
    let ?w = "file_write p chunk w"
    from Cons.prems have "files ?w p = Some (content @ chunk)"
      by (simp add: file_write_def)
    from Cons.IH [OF this]
    have ih: "write_chunks p chunks ?w =
        ?w\<lparr>files := (files ?w)(p \<mapsto> (content @ chunk) @ concat chunks),
          writes := writes ?w @ map (Pair p) (filter (\<lambda>c. c \<noteq> []) chunks)\<rparr>" .
    have step: "write_chunks p (chunk # chunks) w = write_chunks p chunks ?w"
      using False by simp
    show ?thesis
      unfolding step ih
      by (rule world.equality) (simp_all add: file_write_def False fun_eq_iff)
  qed
qed

lemma write_opened [simp]:
  "write_chunks p (iter_chunked 1024 arrived) (file_open_wb p w) =
     w\<lparr>files := (files w)(p \<mapsto> concat arrived),
       writes := writes w @ map (Pair p) (iter_chunked 1024 arrived)\<rparr>"
proof -
  have "files (file_open_wb p w) p = Some []"
    by (simp add: file_open_wb_def)
  moreover have "filter (\<lambda>c. c \<noteq> []) (iter_chunked 1024 arrived) = iter_chunked 1024 arrived"
    using iter_chunked_chunk [of _ 1024 arrived] by (simp add: filter_id_conv)
  ultimately show ?thesis
    using write_chunks_world [of "file_open_wb p w" p "[]" "iter_chunked 1024 arrived"]
    by (simp add: iter_chunked_concat file_open_wb_def)
qed

lemma retrying_stop:
  "m \<le> n \<Longrightarrow> retrying retry_if_exception_type m wait fn n w =
     (case fn n w of
        (Inr r, w') \<Rightarrow> (Inr r, w')
      | (Inl e, w') \<Rightarrow> (Inl (RetryError e), w'))"
  by (subst retrying.simps) (simp add: retry_if_exception_type_def split: prod.splits sum.splits)

lemma retrying_again:
  "n < m \<Longrightarrow> retrying retry_if_exception_type m wait fn n w =
     (case fn n w of
        (Inr r, w') \<Rightarrow> (Inr r, w')
      | (Inl e, w') \<Rightarrow>
          retrying retry_if_exception_type m wait fn (n + 1) (w'\<lparr>sleeps := sleeps w' @ [wait n]\<rparr>))"
  by (subst retrying.simps) (simp add: retry_if_exception_type_def split: prod.splits sum.splits)

lemma wait_exponential_1: "wait_exponential 1 1 10 1 = 1"
  by (simp add: wait_exponential_def)

lemma wait_exponential_2: "wait_exponential 1 1 10 2 = 2"
  by (simp add: wait_exponential_def)

lemma download_file_unfold:
  "download_file d net f w =
     (case download_attempt d (\<lambda>uri. net uri 1) f w of
        (Inr p, w1) \<Rightarrow> (Inr p, w1)
      | (Inl e1, w1) \<Rightarrow>
          (case download_attempt d (\<lambda>uri. net uri 2) f (w1\<lparr>sleeps := sleeps w1 @ [1]\<rparr>) of
             (Inr p, w2) \<Rightarrow> (Inr p, w2)
           | (Inl e2, w2) \<Rightarrow>
               (case download_attempt d (\<lambda>uri. net uri 3) f (w2\<lparr>sleeps := sleeps w2 @ [2]\<rparr>) of
                  (Inr p, w3) \<Rightarrow> (Inr p, w3)
                | (Inl e3, w3) \<Rightarrow> (Inl (RetryError e3), w3))))"
proof -
  let ?R = "retrying retry_if_exception_type 3 (wait_exponential 1 1 10)
              (\<lambda>k. download_attempt d (\<lambda>uri. net uri k) f)"
  have e21: "(2::nat) + 1 = 3" and e11: "(1::nat) + 1 = 2"
    by simp_all
  have three: "?R 3 w' =
      (case download_attempt d (\<lambda>uri. net uri 3) f w' of
         (Inr p, w3) \<Rightarrow> (Inr p, w3)
       | (Inl e3, w3) \<Rightarrow> (Inl (RetryError e3), w3))" for w'
    by (rule retrying_stop) simp
  have two: "?R 2 w' =
      (case download_attempt d (\<lambda>uri. net uri 2) f w' of
         (Inr p, w2) \<Rightarrow> (Inr p, w2)
       | (Inl e2, w2) \<Rightarrow> ?R 3 (w2\<lparr>sleeps := sleeps w2 @ [2]\<rparr>))" for w'
    apply (subst retrying_again)
     apply simp
    apply (simp only: e21 wait_exponential_2)
    done
  have one: "?R 1 w =
      (case download_attempt d (\<lambda>uri. net uri 1) f w of
         (Inr p, w1) \<Rightarrow> (Inr p, w1)
       | (Inl e1, w1) \<Rightarrow> ?R 2 (w1\<lparr>sleeps := sleeps w1 @ [1]\<rparr>))"
    apply (subst retrying_again)
     apply simp
    apply (simp only: e11 wait_exponential_1)
    done
  show ?thesis
    unfolding download_file_def one two three ..
qed


lemma attempt_requests:
  "requests (snd (download_attempt d server f w)) = requests w @ [BASE_URI f]"
  by (auto simp: download_attempt_def download_try_def Let_def
      split: get_outcome.splits option.splits)

lemma attempt_sleeps: "sleeps (snd (download_attempt d server f w)) = sleeps w"
  by (auto simp: download_attempt_def download_try_def Let_def
      split: get_outcome.splits option.splits)

lemma attempt_logged: "logged (snd (download_attempt d server f w)) = logged w"
  by (auto simp: download_attempt_def download_try_def Let_def
      split: get_outcome.splits option.splits)

lemma download_try_fst: "fst (download_try got f p w) = fst (download_try got f p w')"
  by (simp add: download_try_def Let_def split: get_outcome.splits option.splits)

lemma attempt_fst:
  "fst (download_attempt d server f w) = fst (download_attempt d server f w')"
proof -
  let ?w = "w\<lparr>requests := requests w @ [BASE_URI f]\<rparr>"
  let ?w' = "w'\<lparr>requests := requests w' @ [BASE_URI f]\<rparr>"
  obtain r w1 where a: "download_try (server (BASE_URI f)) f (os_path_join d f) ?w = (r, w1)"
    by (cases "download_try (server (BASE_URI f)) f (os_path_join d f) ?w")
  obtain r' w2 where b: "download_try (server (BASE_URI f)) f (os_path_join d f) ?w' = (r', w2)"
    by (cases "download_try (server (BASE_URI f)) f (os_path_join d f) ?w'")
  from a b download_try_fst [of "server (BASE_URI f)" f "os_path_join d f" ?w ?w']
  have "r = r'" by simp
  with a b show ?thesis
    by (simp add: download_attempt_def Let_def split: sum.splits)
qed

lemma attempt_404:
  assumes "server (BASE_URI f) = GetReturns r" and "status r = 404"
  shows "download_attempt d server f w =
    (Inl (FileNotFoundError (''File '' @ f @ '' not found on the server.'')),
     w\<lparr>requests := requests w @ [BASE_URI f]\<rparr>)"
  using assms by (simp add: download_attempt_def download_try_def Let_def)

lemma download_file_logged: "logged (snd (download_file d net f w)) = logged w"
proof -
  have a: "download_attempt d server f w' = (r, w'') \<Longrightarrow> logged w'' = logged w'" for server w' r w''
    using attempt_logged [of d server f w'] by simp
  show ?thesis
    by (auto simp: download_file_unfold split: prod.splits sum.splits dest!: a)
qed


lemma attempt_Inr:
  assumes "download_attempt d server f w = (Inr p, w')"
  shows "p = os_path_join d f \<and>
    (\<exists>r. server (BASE_URI f) = GetReturns r \<and> status r < 400 \<and> open_error r = None \<and>
         stream_error r = None \<and> files w' = (files w)(p \<mapsto> body r))"
  using assms
  by (auto simp: download_attempt_def download_try_def Let_def body_def
      split: get_outcome.splits option.splits if_splits prod.splits sum.splits)

lemma attempt_opened:
  assumes "server (BASE_URI f) = GetReturns r" and "status r < 400" and "open_error r = None"
  shows "files (snd (download_attempt d server f w)) = (files w)(os_path_join d f \<mapsto> body r)"
  using assms
  by (auto simp: download_attempt_def download_try_def Let_def body_def
      split: option.splits)

lemma attempt_stream_error:
  assumes "server (BASE_URI f) = GetReturns r" and "status r < 400" and "open_error r = None"
    and "stream_error r = Some e"
  shows "fst (download_attempt d server f w) =
    Inl (if caught_at_74 e then ConnectionError f e else e)"
  using assms
  by (auto simp: download_attempt_def download_try_def Let_def)

lemma attempt_unopened:
  assumes "\<forall>r. server (BASE_URI f) = GetReturns r \<longrightarrow> 400 \<le> status r \<or> open_error r \<noteq> None"
  shows "files (snd (download_attempt d server f w)) = files w"
  using assms
  by (auto simp: download_attempt_def download_try_def Let_def
      split: get_outcome.splits option.splits)

lemma download_file_Inr:
  assumes "download_file d net f w = (Inr p, w')"
  shows "p = os_path_join d f \<and>
    (\<exists>k\<in>{1, 2, 3}. \<exists>r. net (BASE_URI f) k = GetReturns r \<and> status r < 400 \<and>
       open_error r = None \<and> stream_error r = None \<and> files w' p = Some (body r))"
proof -
  have a: "download_attempt d (\<lambda>uri. net uri k) f w1 = (Inr p, w2) \<Longrightarrow>
      p = os_path_join d f \<and>
      (\<exists>r. net (BASE_URI f) k = GetReturns r \<and> status r < 400 \<and> open_error r = None \<and>
         stream_error r = None \<and> files w2 p = Some (body r))" for k w1 w2
    using attempt_Inr [of d "\<lambda>uri. net uri k" f w1 p w2] by auto
  from assms consider
      (one) "download_attempt d (\<lambda>uri. net uri 1) f w = (Inr p, w')"
    | (two) w1 where "download_attempt d (\<lambda>uri. net uri 2) f w1 = (Inr p, w')"
    | (three) w2 where "download_attempt d (\<lambda>uri. net uri 3) f w2 = (Inr p, w')"
    by (auto simp: download_file_unfold split: prod.splits sum.splits)
  then show ?thesis
  proof cases
    case one
    from a [OF one] show ?thesis by auto
  next
    case two
    from a [OF two] show ?thesis by auto
  next
    case three
    from a [OF three] show ?thesis by auto
  qed
qed

lemma download_file_requests:
  "\<exists>n\<in>{1, 2, 3}. requests (snd (download_file d net f w)) = requests w @ replicate n (BASE_URI f) \<and>
     sleeps (snd (download_file d net f w)) = sleeps w @ take (n - 1) [1, 2]"
proof -
  have a: "download_attempt d server f w1 = (r, w2) \<Longrightarrow>
      requests w2 = requests w1 @ [BASE_URI f] \<and> sleeps w2 = sleeps w1" for server w1 r w2
    using attempt_requests [of d server f w1] attempt_sleeps [of d server f w1] by simp
  show ?thesis
    by (auto simp: download_file_unfold eval_nat_numeral split: prod.splits sum.splits dest!: a)
qed

section \<open>Claims about one file\<close>

subsection \<open>C1: a 404 response\<close>

text \<open>
  Against C1 as stated (a 404 fails at once with NotFound, after one attempt, and the
  reported outcome is the NotFound event): the file of the list that the server does not
  have is requested three times, the fetch raises RetryError around the
  FileNotFoundError, and the line logged is the one for a file not found after retries.
\<close>

theorem not_found_retried_counterexample:
  "length (requests (snd (download_file download_dir answer_404 ''Divvy_Trips_2220_Q1.zip'' empty_world))) = 3 \<and>
   fst (download_file download_dir answer_404 ''Divvy_Trips_2220_Q1.zip'' empty_world) =
     Inl (RetryError (FileNotFoundError ''File Divvy_Trips_2220_Q1.zip not found on the server.'')) \<and>
   logged (snd (process_file answer_404 unzip_nothing ''Divvy_Trips_2220_Q1.zip'' empty_world)) =
     [(ERROR, NotFoundAfterRetries ''Divvy_Trips_2220_Q1.zip'')]"
  by (simp add: process_file_def process_file_try_def download_file_unfold download_attempt_def
      download_try_def answer_404_def respond_def empty_world_def log_error_def Let_def)

text \<open>
  C1, amended. For every file whose fetch receives a 404 response on each attempt: the
  attempt raises FileNotFoundError, the decorator retries it like any other exception,
  so the fetch makes exactly three attempts (sleeping 1 and 2 seconds between them),
  leaves the files as they were and raises RetryError around the FileNotFoundError;
  \<^verbatim>\<open>process_file\<close> returns normally and logs exactly one record, the error
  \<^verbatim>\<open>{file_name} not found after retries.\<close>
\<close>

theorem not_found_is_retried:
  assumes "\<forall>k\<in>{1, 2, 3}. \<exists>r. net (BASE_URI file_name) k = GetReturns r \<and> status r = 404"
  shows "fst (download_file download_dir net file_name w) =
      Inl (RetryError (FileNotFoundError (''File '' @ file_name @ '' not found on the server.''))) \<and>
    requests (snd (download_file download_dir net file_name w)) =
      requests w @ [BASE_URI file_name, BASE_URI file_name, BASE_URI file_name] \<and>
    sleeps (snd (download_file download_dir net file_name w)) = sleeps w @ [1, 2] \<and>
    files (snd (download_file download_dir net file_name w)) = files w \<and>
    fst (process_file net unzip file_name w) = Inr () \<and>
    logged (snd (process_file net unzip file_name w)) =
      logged w @ [(ERROR, NotFoundAfterRetries file_name)]"
proof -
  from assms obtain r1 r2 r3 where
    r: "net (BASE_URI file_name) 1 = GetReturns r1" "status r1 = 404"
       "net (BASE_URI file_name) 2 = GetReturns r2" "status r2 = 404"
       "net (BASE_URI file_name) 3 = GetReturns r3" "status r3 = 404"
    by auto
  let ?e = "FileNotFoundError (''File '' @ file_name @ '' not found on the server.'')"
  let ?u = "BASE_URI file_name"
  have a1: "download_attempt download_dir (\<lambda>uri. net uri 1) file_name w' =
      (Inl ?e, w'\<lparr>requests := requests w' @ [?u]\<rparr>)" for w'
    using r(1,2) by (intro attempt_404 [where server = "\<lambda>uri. net uri 1" and r = r1]) simp_all
  have a2: "download_attempt download_dir (\<lambda>uri. net uri 2) file_name w' =
      (Inl ?e, w'\<lparr>requests := requests w' @ [?u]\<rparr>)" for w'
    using r(3,4) by (intro attempt_404 [where server = "\<lambda>uri. net uri 2" and r = r2]) simp_all
  have a3: "download_attempt download_dir (\<lambda>uri. net uri 3) file_name w' =
      (Inl ?e, w'\<lparr>requests := requests w' @ [?u]\<rparr>)" for w'
    using r(5,6) by (intro attempt_404 [where server = "\<lambda>uri. net uri 3" and r = r3]) simp_all
  have d: "download_file download_dir net file_name w =
      (Inl (RetryError ?e), w\<lparr>requests := requests w @ [?u, ?u, ?u], sleeps := sleeps w @ [1, 2]\<rparr>)"
    apply (simp only: download_file_unfold a1 a2 a3 prod.case sum.case)
    apply simp
    done
  then show ?thesis
    by (simp add: process_file_def process_file_try_def log_error_def)
qed

theorem not_found_is_retried_witness:
  "(\<exists>r. answer_404 (BASE_URI ''Divvy_Trips_2220_Q1.zip'') 1 = GetReturns r \<and> status r = 404) \<and>
   (\<exists>r. answer_404 (BASE_URI ''Divvy_Trips_2220_Q1.zip'') 2 = GetReturns r \<and> status r = 404) \<and>
   (\<exists>r. answer_404 (BASE_URI ''Divvy_Trips_2220_Q1.zip'') 3 = GetReturns r \<and> status r = 404) \<and>
   requests (snd (download_file download_dir answer_404 ''Divvy_Trips_2220_Q1.zip'' empty_world)) =
     [''https://divvy-tripdata.s3.amazonaws.com/Divvy_Trips_2220_Q1.zip'',
      ''https://divvy-tripdata.s3.amazonaws.com/Divvy_Trips_2220_Q1.zip'',
      ''https://divvy-tripdata.s3.amazonaws.com/Divvy_Trips_2220_Q1.zip''] \<and>
   sleeps (snd (download_file download_dir answer_404 ''Divvy_Trips_2220_Q1.zip'' empty_world)) = [1, 2] \<and>
   logged (snd (process_file answer_404 unzip_nothing ''Divvy_Trips_2220_Q1.zip'' empty_world)) =
     [(ERROR, NotFoundAfterRetries ''Divvy_Trips_2220_Q1.zip'')]"
proof -
  have h: "\<forall>k\<in>{1, 2, 3}. \<exists>r. answer_404 (BASE_URI ''Divvy_Trips_2220_Q1.zip'') k = GetReturns r \<and> status r = 404"
    by (simp add: answer_404_def respond_def)
  from not_found_is_retried [of answer_404 "''Divvy_Trips_2220_Q1.zip''" empty_world unzip_nothing, OF h] h show ?thesis
    by (simp add: empty_world_def BASE_URI_def)
qed

subsection \<open>C6: what counts as a connection failure\<close>

lemma download_file_second_attempt:
  assumes "fst (download_attempt d (\<lambda>uri. net uri 1) f w) = Inl e"
  shows "\<exists>n\<in>{2, 3}. requests (snd (download_file d net f w)) = requests w @ replicate n (BASE_URI f)"
proof -
  let ?u = "BASE_URI f"
  obtain w1 where a1: "download_attempt d (\<lambda>uri. net uri 1) f w = (Inl e, w1)"
    using assms by (cases "download_attempt d (\<lambda>uri. net uri 1) f w") auto
  have r1: "requests w1 = requests w @ [?u]"
    using attempt_requests [of d "\<lambda>uri. net uri 1" f w] a1 by simp
  obtain x2 w2 where
    a2: "download_attempt d (\<lambda>uri. net uri 2) f (w1\<lparr>sleeps := sleeps w1 @ [1]\<rparr>) = (x2, w2)"
    by (cases "download_attempt d (\<lambda>uri. net uri 2) f (w1\<lparr>sleeps := sleeps w1 @ [1]\<rparr>)")
  have r2: "requests w2 = requests w @ [?u, ?u]"
    using attempt_requests [of d "\<lambda>uri. net uri 2" f "w1\<lparr>sleeps := sleeps w1 @ [1]\<rparr>"] a2 r1 by simp
  obtain x3 w3 where
    a3: "download_attempt d (\<lambda>uri. net uri 3) f (w2\<lparr>sleeps := sleeps w2 @ [2]\<rparr>) = (x3, w3)"
    by (cases "download_attempt d (\<lambda>uri. net uri 3) f (w2\<lparr>sleeps := sleeps w2 @ [2]\<rparr>)")
  have r3: "requests w3 = requests w @ [?u, ?u, ?u]"
    using attempt_requests [of d "\<lambda>uri. net uri 3" f "w2\<lparr>sleeps := sleeps w2 @ [2]\<rparr>"] a3 r2 by simp
  have "snd (download_file d net f w) = w2 \<or> snd (download_file d net f w) = w3"
    by (simp only: download_file_unfold a1 a2 a3 prod.case sum.case split: sum.splits) simp
  then show ?thesis
    using r2 r3 by (auto simp: eval_nat_numeral)
qed

text \<open>
  C6. On every fetch attempt, an HTTP error status other than 404, a failure to
  establish the connection and a timeout (raised by the request or while the body is
  streamed) each leave \<^verbatim>\<open>download_file\<close> as a ConnectionError around the
  original error, and as nothing else. The class is retryable: the decorator's
  predicate accepts it, and a first attempt that ends this way is followed by a second
  request.
\<close>

theorem connection_failures_classified:
  "(server (BASE_URI f) = GetReturns r \<and> 400 \<le> status r \<and> status r \<noteq> 404 \<longrightarrow>
      fst (download_attempt d server f w) = Inl (ConnectionError f (ClientResponseError (status r)))) \<and>
   (server (BASE_URI f) = GetRaises ClientConnectorError \<longrightarrow>
      fst (download_attempt d server f w) = Inl (ConnectionError f ClientConnectorError)) \<and>
   (server (BASE_URI f) = GetRaises TimeoutError \<longrightarrow>
      fst (download_attempt d server f w) = Inl (ConnectionError f TimeoutError)) \<and>
   (server (BASE_URI f) = GetReturns r \<and> status r < 400 \<and> open_error r = None \<and>
    stream_error r = Some TimeoutError \<longrightarrow>
      fst (download_attempt d server f w) = Inl (ConnectionError f TimeoutError)) \<and>
   retry_if_exception_type (ConnectionError f cause) \<and>
   (fst (download_attempt d (\<lambda>uri. net uri 1) f w) = Inl (ConnectionError f cause) \<longrightarrow>
      length (requests w) + 2 \<le> length (requests (snd (download_file d net f w))))"
proof -
  have retried: "length (requests w) + 2 \<le> length (requests (snd (download_file d net f w)))"
    if "fst (download_attempt d (\<lambda>uri. net uri 1) f w) = Inl (ConnectionError f cause)"
    using download_file_second_attempt [of d net f w "ConnectionError f cause"] that by auto
  show ?thesis
    using retried
    by (auto simp: download_attempt_def download_try_def Let_def retry_if_exception_type_def)
qed

theorem connection_failures_classified_witness:
  "fst (download_attempt download_dir (\<lambda>uri. respond 503 []) ''Divvy_Trips_2018_Q4.zip'' empty_world) =
     Inl (ConnectionError ''Divvy_Trips_2018_Q4.zip'' (ClientResponseError 503)) \<and>
   fst (download_attempt download_dir (\<lambda>uri. GetRaises ClientConnectorError) ''Divvy_Trips_2018_Q4.zip'' empty_world) =
     Inl (ConnectionError ''Divvy_Trips_2018_Q4.zip'' ClientConnectorError) \<and>
   fst (download_attempt download_dir (\<lambda>uri. GetRaises TimeoutError) ''Divvy_Trips_2018_Q4.zip'' empty_world) =
     Inl (ConnectionError ''Divvy_Trips_2018_Q4.zip'' TimeoutError) \<and>
   fst (download_attempt download_dir
         (\<lambda>uri. GetReturns \<lparr>status = 200, open_error = None, arrivals = [[80, 75]], stream_error = Some TimeoutError\<rparr>)
         ''Divvy_Trips_2018_Q4.zip'' empty_world) =
     Inl (ConnectionError ''Divvy_Trips_2018_Q4.zip'' TimeoutError) \<and>
   length (requests (snd (download_file download_dir refuse_connection ''Divvy_Trips_2018_Q4.zip'' empty_world))) = 3"
proof -
  let ?f = "''Divvy_Trips_2018_Q4.zip''"
  let ?r = "\<lparr>status = 503, open_error = None, arrivals = [[]], stream_error = None\<rparr>"
  let ?t = "\<lparr>status = 200, open_error = None, arrivals = [[80, 75]], stream_error = Some TimeoutError\<rparr>"
  note a = connection_failures_classified
    [of "\<lambda>uri. respond 503 []" ?f ?r download_dir empty_world ClientConnectorError refuse_connection]
  note b = connection_failures_classified
    [of "\<lambda>uri. GetRaises ClientConnectorError" ?f ?r download_dir empty_world ClientConnectorError refuse_connection]
  note c = connection_failures_classified
    [of "\<lambda>uri. GetRaises TimeoutError" ?f ?r download_dir empty_world ClientConnectorError refuse_connection]
  note d = connection_failures_classified
    [of "\<lambda>uri. GetReturns ?t" ?f ?t download_dir empty_world ClientConnectorError refuse_connection]
  have three: "length (requests (snd (download_file download_dir refuse_connection ?f empty_world))) = 3"
    by (simp add: download_file_unfold download_attempt_def download_try_def refuse_connection_def
        empty_world_def Let_def)
  have first: "fst (download_attempt download_dir (\<lambda>uri. refuse_connection uri 1) ?f empty_world) =
      Inl (ConnectionError ?f ClientConnectorError)"
    using b by (simp add: refuse_connection_def)
  show ?thesis
    using a b c d three first
    by (simp add: respond_def empty_world_def)
qed

subsection \<open>C5: the retry policy\<close>

lemma wait_exponential_closed: "wait_exponential 1 1 10 (Suc k) = min (2 ^ k) 10"
  by (simp add: wait_exponential_def max_def min_def)

lemma download_file_all_fail:
  assumes "fst (download_attempt d (\<lambda>uri. net uri 1) f w) = Inl e1"
    and "fst (download_attempt d (\<lambda>uri. net uri 2) f w) = Inl e2"
    and "fst (download_attempt d (\<lambda>uri. net uri 3) f w) = Inl e3"
  shows "fst (download_file d net f w) = Inl (RetryError e3)"
proof -
  obtain w1 where a1: "download_attempt d (\<lambda>uri. net uri 1) f w = (Inl e1, w1)"
    using assms(1) by (cases "download_attempt d (\<lambda>uri. net uri 1) f w") auto
  let ?w1 = "w1\<lparr>sleeps := sleeps w1 @ [1]\<rparr>"
  have "fst (download_attempt d (\<lambda>uri. net uri 2) f ?w1) = Inl e2"
    using assms(2) attempt_fst [of d "\<lambda>uri. net uri 2" f ?w1 w] by simp
  then obtain w2 where a2: "download_attempt d (\<lambda>uri. net uri 2) f ?w1 = (Inl e2, w2)"
    by (cases "download_attempt d (\<lambda>uri. net uri 2) f ?w1") auto
  let ?w2 = "w2\<lparr>sleeps := sleeps w2 @ [2]\<rparr>"
  have "fst (download_attempt d (\<lambda>uri. net uri 3) f ?w2) = Inl e3"
    using assms(3) attempt_fst [of d "\<lambda>uri. net uri 3" f ?w2 w] by simp
  then obtain w3 where a3: "download_attempt d (\<lambda>uri. net uri 3) f ?w2 = (Inl e3, w3)"
    by (cases "download_attempt d (\<lambda>uri. net uri 3) f ?w2") auto
  show ?thesis
    by (simp only: download_file_unfold a1 a2 a3 prod.case sum.case fst_conv)
qed

lemma download_file_Inl:
  assumes "fst (download_file d net f w) = Inl x"
  shows "\<exists>e. x = RetryError e \<and> fst (download_attempt d (\<lambda>uri. net uri 3) f w) = Inl e \<and>
    requests (snd (download_file d net f w)) = requests w @ replicate 3 (BASE_URI f) \<and>
    sleeps (snd (download_file d net f w)) = sleeps w @ [1, 2]"
proof -
  let ?u = "BASE_URI f"
  obtain x1 w1 where a1: "download_attempt d (\<lambda>uri. net uri 1) f w = (x1, w1)"
    by (cases "download_attempt d (\<lambda>uri. net uri 1) f w")
  let ?w1 = "w1\<lparr>sleeps := sleeps w1 @ [1]\<rparr>"
  obtain x2 w2 where a2: "download_attempt d (\<lambda>uri. net uri 2) f ?w1 = (x2, w2)"
    by (cases "download_attempt d (\<lambda>uri. net uri 2) f ?w1")
  let ?w2 = "w2\<lparr>sleeps := sleeps w2 @ [2]\<rparr>"
  obtain x3 w3 where a3: "download_attempt d (\<lambda>uri. net uri 3) f ?w2 = (x3, w3)"
    by (cases "download_attempt d (\<lambda>uri. net uri 3) f ?w2")
  have r1: "requests w1 = requests w @ [?u] \<and> sleeps w1 = sleeps w"
    using attempt_requests [of d "\<lambda>uri. net uri 1" f w]
      attempt_sleeps [of d "\<lambda>uri. net uri 1" f w] a1 by simp
  have r2: "requests w2 = requests w @ [?u, ?u] \<and> sleeps w2 = sleeps w @ [1]"
    using attempt_requests [of d "\<lambda>uri. net uri 2" f ?w1]
      attempt_sleeps [of d "\<lambda>uri. net uri 2" f ?w1] a2 r1 by simp
  have r3: "requests w3 = requests w @ [?u, ?u, ?u] \<and> sleeps w3 = sleeps w @ [1, 2]"
    using attempt_requests [of d "\<lambda>uri. net uri 3" f ?w2]
      attempt_sleeps [of d "\<lambda>uri. net uri 3" f ?w2] a3 r2 by simp
  from assms have "\<exists>e. x = RetryError e \<and> x3 = Inl e \<and> snd (download_file d net f w) = w3"
    by (simp only: download_file_unfold a1 a2 a3 prod.case sum.case split: sum.splits) auto
  then obtain e where e: "x = RetryError e" "x3 = Inl e" "snd (download_file d net f w) = w3"
    by blast
  have "fst (download_attempt d (\<lambda>uri. net uri 3) f w) = Inl e"
    using attempt_fst [of d "\<lambda>uri. net uri 3" f w ?w2] a3 e(2) by simp
  with e r3 show ?thesis
    by (simp add: eval_nat_numeral)
qed

text \<open>
  C5. Every fetch makes one, two or three attempts, and sleeps 1 second before the
  second and 2 seconds before the third; the wait before attempt \<open>k + 2\<close> is
  \<open>min (2 ^ k) 10\<close> seconds, so it starts at 1, doubles, and never exceeds 10. When
  all three attempts fail the fetch raises RetryError around the exception of the third
  attempt, and a fetch that fails at all fails in exactly this way. The controller
  reads the wrapped exception: around a FileNotFoundError it logs the record for a file
  not found after retries, around a ConnectionError the record for an unexpected retry
  error, and the two records differ.
\<close>

theorem fetch_retry_policy:
  "(\<exists>n\<in>{1, 2, 3}.
      requests (snd (download_file d net f w)) = requests w @ replicate n (BASE_URI f) \<and>
      sleeps (snd (download_file d net f w)) = sleeps w @ take (n - 1) [1, 2]) \<and>
   wait_exponential 1 1 10 (Suc k) = min (2 ^ k) 10 \<and>
   (fst (download_attempt d (\<lambda>uri. net uri 1) f w) = Inl e1 \<and>
    fst (download_attempt d (\<lambda>uri. net uri 2) f w) = Inl e2 \<and>
    fst (download_attempt d (\<lambda>uri. net uri 3) f w) = Inl e3 \<longrightarrow>
      fst (download_file d net f w) = Inl (RetryError e3) \<and>
      requests (snd (download_file d net f w)) = requests w @ replicate 3 (BASE_URI f) \<and>
      sleeps (snd (download_file d net f w)) = sleeps w @ [1, 2]) \<and>
   (fst (download_file d net f w) = Inl x \<longrightarrow>
      (\<exists>e. x = RetryError e \<and> fst (download_attempt d (\<lambda>uri. net uri 3) f w) = Inl e)) \<and>
   except_clauses file_name (RetryError (FileNotFoundError m)) w =
     (Inr (), log_error (NotFoundAfterRetries file_name) w) \<and>
   except_clauses file_name (RetryError (ConnectionError f' cause)) w =
     (Inr (), log_error (UnexpectedRetryError file_name (RetryError (ConnectionError f' cause))) w) \<and>
   NotFoundAfterRetries file_name \<noteq> UnexpectedRetryError file_name (RetryError (ConnectionError f' cause))"
proof -
  have "fst (download_file d net f w) = Inl (RetryError e3) \<and>
      requests (snd (download_file d net f w)) = requests w @ replicate 3 (BASE_URI f) \<and>
      sleeps (snd (download_file d net f w)) = sleeps w @ [1, 2]"
    if "fst (download_attempt d (\<lambda>uri. net uri 1) f w) = Inl e1"
      and "fst (download_attempt d (\<lambda>uri. net uri 2) f w) = Inl e2"
      and "fst (download_attempt d (\<lambda>uri. net uri 3) f w) = Inl e3"
    using download_file_all_fail [of d net f w e1 e2 e3] that
      download_file_Inl [of d net f w "RetryError e3"] by simp
  moreover have "\<exists>e. x = RetryError e \<and> fst (download_attempt d (\<lambda>uri. net uri 3) f w) = Inl e"
    if "fst (download_file d net f w) = Inl x"
    using download_file_Inl [of d net f w x] that by blast
  ultimately show ?thesis
    using download_file_requests [of d net f w] wait_exponential_closed [of k]
    by simp
qed

theorem fetch_retry_policy_witness:
  "fst (download_attempt download_dir (\<lambda>uri. refuse_connection uri 1) ''Divvy_Trips_2019_Q1.zip'' empty_world) =
     Inl (ConnectionError ''Divvy_Trips_2019_Q1.zip'' ClientConnectorError) \<and>
   fst (download_attempt download_dir (\<lambda>uri. refuse_connection uri 2) ''Divvy_Trips_2019_Q1.zip'' empty_world) =
     Inl (ConnectionError ''Divvy_Trips_2019_Q1.zip'' ClientConnectorError) \<and>
   fst (download_attempt download_dir (\<lambda>uri. refuse_connection uri 3) ''Divvy_Trips_2019_Q1.zip'' empty_world) =
     Inl (ConnectionError ''Divvy_Trips_2019_Q1.zip'' ClientConnectorError) \<and>
   fst (download_file download_dir refuse_connection ''Divvy_Trips_2019_Q1.zip'' empty_world) =
     Inl (RetryError (ConnectionError ''Divvy_Trips_2019_Q1.zip'' ClientConnectorError)) \<and>
   length (requests (snd (download_file download_dir refuse_connection ''Divvy_Trips_2019_Q1.zip'' empty_world))) = 3 \<and>
   sleeps (snd (download_file download_dir refuse_connection ''Divvy_Trips_2019_Q1.zip'' empty_world)) = [1, 2]"
proof -
  let ?f = "''Divvy_Trips_2019_Q1.zip''"
  let ?e = "ConnectionError ?f ClientConnectorError"
  have h: "fst (download_attempt download_dir (\<lambda>uri. refuse_connection uri k) ?f empty_world) = Inl ?e" for k
    by (simp add: download_attempt_def download_try_def refuse_connection_def Let_def)
  from fetch_retry_policy [of download_dir refuse_connection ?f empty_world 0 ?e ?e ?e "RetryError ?e" ?f "[]" ?f ClientConnectorError]
    h [of 1] h [of 2] h [of 3]
  show ?thesis
    by (simp add: empty_world_def)
qed

subsection \<open>C8: a fetch that succeeds\<close>

lemma attempt_Inr_writes:
  assumes "download_attempt d server f w = (Inr p, w')"
  shows "\<exists>r. server (BASE_URI f) = GetReturns r \<and> status r < 400 \<and> open_error r = None \<and>
    stream_error r = None \<and> files w' p = Some (body r) \<and>
    writes w' = writes w @ map (Pair p) (iter_chunked 1024 (arrivals r))"
  using assms
  by (auto simp: download_attempt_def download_try_def Let_def body_def
      split: get_outcome.splits option.splits if_splits prod.splits sum.splits)

lemma download_file_Inr_writes:
  assumes "download_file d net f w = (Inr p, w')"
  shows "\<exists>k\<in>{1, 2, 3}. \<exists>r earlier. net (BASE_URI f) k = GetReturns r \<and> status r < 400 \<and>
    open_error r = None \<and> stream_error r = None \<and> files w' p = Some (body r) \<and>
    writes w' = earlier @ map (Pair p) (iter_chunked 1024 (arrivals r))"
proof -
  have a: "download_attempt d (\<lambda>uri. net uri k) f w1 = (Inr p, w2) \<Longrightarrow>
      \<exists>r earlier. net (BASE_URI f) k = GetReturns r \<and> status r < 400 \<and> open_error r = None \<and>
        stream_error r = None \<and> files w2 p = Some (body r) \<and>
        writes w2 = earlier @ map (Pair p) (iter_chunked 1024 (arrivals r))" for k w1 w2
    using attempt_Inr_writes [of d "\<lambda>uri. net uri k" f w1 p w2] by auto
  from assms consider
      (one) "download_attempt d (\<lambda>uri. net uri 1) f w = (Inr p, w')"
    | (two) w1 where "download_attempt d (\<lambda>uri. net uri 2) f w1 = (Inr p, w')"
    | (three) w2 where "download_attempt d (\<lambda>uri. net uri 3) f w2 = (Inr p, w')"
    by (auto simp: download_file_unfold split: prod.splits sum.splits)
  then show ?thesis
  proof cases
    case one
    from a [OF one] show ?thesis by auto
  next
    case two
    from a [OF two] show ?thesis by auto
  next
    case three
    from a [OF three] show ?thesis by auto
  qed
qed

text \<open>
  Against C8 as stated (the body is written in chunks of the fixed size of 1024 bytes):
  a body of four bytes that arrives in two pieces is written by two calls of
  \<^verbatim>\<open>file.write\<close>, of two bytes each; the first chunk is neither the last one nor 1024
  bytes long.
\<close>

theorem chunks_follow_arrival_counterexample:
  "fst (download_file download_dir answer_in_pieces ''Divvy_Trips_2018_Q4.zip'' empty_world) =
     Inr ''downloads/Divvy_Trips_2018_Q4.zip'' \<and>
   writes (snd (download_file download_dir answer_in_pieces ''Divvy_Trips_2018_Q4.zip'' empty_world)) =
     [(''downloads/Divvy_Trips_2018_Q4.zip'', [80, 75]), (''downloads/Divvy_Trips_2018_Q4.zip'', [3, 4])] \<and>
   length [80, 75 :: 8 word] \<noteq> 1024"
  by code_simp

text \<open>
  C8, amended. When the fetch of a file returns, the value returned is \<^verbatim>\<open>os.path.join\<close>
  of the download directory and the file name (\<^verbatim>\<open>downloads/{name}\<close> in the controller,
  for a name that does not start with a slash); every request of the fetch went to the
  URI made of the fixed prefix and the file name; one of the at most three attempts got
  a response without an error status whose stream ended normally, and the last calls of
  \<^verbatim>\<open>file.write\<close> are the chunks of \<^verbatim>\<open>iter_chunked(1024)\<close> for that response, in
  order, to the path returned. No chunk is empty or longer than 1024 bytes (a chunk is
  cut where the data arrived, so it may be shorter), together the chunks are the body,
  and the local file holds exactly the body.
\<close>

theorem fetch_success:
  assumes "fst (download_file d net f w) = Inr p"
  shows "p = os_path_join d f \<and>
    (take 1 f \<noteq> ''/'' \<longrightarrow> os_path_join download_dir f = ''downloads/'' @ f) \<and>
    BASE_URI f = ''https://divvy-tripdata.s3.amazonaws.com/'' @ f \<and>
    (\<exists>n\<in>{1, 2, 3}. requests (snd (download_file d net f w)) = requests w @ replicate n (BASE_URI f)) \<and>
    (\<exists>k\<in>{1, 2, 3}. \<exists>r. net (BASE_URI f) k = GetReturns r \<and> status r < 400 \<and>
       open_error r = None \<and> stream_error r = None \<and>
       (\<exists>earlier. writes (snd (download_file d net f w)) =
          earlier @ map (Pair p) (iter_chunked 1024 (arrivals r))) \<and>
       (\<forall>c\<in>set (iter_chunked 1024 (arrivals r)). c \<noteq> [] \<and> length c \<le> 1024) \<and>
       concat (iter_chunked 1024 (arrivals r)) = body r \<and>
       files (snd (download_file d net f w)) p = Some (body r))"
proof -
  from assms have d: "download_file d net f w = (Inr p, snd (download_file d net f w))"
    by (cases "download_file d net f w") simp
  from download_file_Inr [OF d] have a: "p = os_path_join d f"
    by blast
  from download_file_Inr_writes [OF d] obtain k r earlier where
    k: "k \<in> {1, 2, 3}" "net (BASE_URI f) k = GetReturns r" "status r < 400" "open_error r = None"
      "stream_error r = None" "files (snd (download_file d net f w)) p = Some (body r)"
      "writes (snd (download_file d net f w)) = earlier @ map (Pair p) (iter_chunked 1024 (arrivals r))"
    by blast
  have chunks: "\<forall>c\<in>set (iter_chunked 1024 (arrivals r)). c \<noteq> [] \<and> length c \<le> 1024"
    "concat (iter_chunked 1024 (arrivals r)) = body r"
    using iter_chunked_chunk [of _ 1024 "arrivals r"]
    by (simp_all add: iter_chunked_concat body_def)
  from k chunks have b: "\<exists>k\<in>{1, 2, 3}. \<exists>r. net (BASE_URI f) k = GetReturns r \<and> status r < 400 \<and>
       open_error r = None \<and> stream_error r = None \<and>
       (\<exists>earlier. writes (snd (download_file d net f w)) =
          earlier @ map (Pair p) (iter_chunked 1024 (arrivals r))) \<and>
       (\<forall>c\<in>set (iter_chunked 1024 (arrivals r)). c \<noteq> [] \<and> length c \<le> 1024) \<and>
       concat (iter_chunked 1024 (arrivals r)) = body r \<and>
       files (snd (download_file d net f w)) p = Some (body r)"
    by blast
  have c: "\<exists>n\<in>{1, 2, 3}. requests (snd (download_file d net f w)) = requests w @ replicate n (BASE_URI f)"
    using download_file_requests [of d net f w] by blast
  have e: "os_path_join download_dir f = ''downloads/'' @ f" if "take 1 f \<noteq> ''/''"
    using that by (simp add: os_path_join_def download_dir_def)
  from a b c e show ?thesis
    by (simp add: BASE_URI_def)
qed

theorem fetch_success_witness:
  "fst (download_file download_dir answer_in_pieces ''Divvy_Trips_2018_Q4.zip'' empty_world) =
     Inr ''downloads/Divvy_Trips_2018_Q4.zip'' \<and>
   requests (snd (download_file download_dir answer_in_pieces ''Divvy_Trips_2018_Q4.zip'' empty_world)) =
     [''https://divvy-tripdata.s3.amazonaws.com/Divvy_Trips_2018_Q4.zip''] \<and>
   files (snd (download_file download_dir answer_in_pieces ''Divvy_Trips_2018_Q4.zip'' empty_world))
     ''downloads/Divvy_Trips_2018_Q4.zip'' = Some [80, 75, 3, 4] \<and>
   writes (snd (download_file download_dir answer_in_pieces ''Divvy_Trips_2018_Q4.zip'' empty_world)) =
     map (Pair ''downloads/Divvy_Trips_2018_Q4.zip'') (iter_chunked 1024 [[80, 75], [3, 4]]) \<and>
   os_path_join download_dir ''Divvy_Trips_2018_Q4.zip'' = ''downloads/Divvy_Trips_2018_Q4.zip''"
proof -
  let ?f = "''Divvy_Trips_2018_Q4.zip''"
  let ?p = "''downloads/Divvy_Trips_2018_Q4.zip''"
  let ?w = "snd (download_file download_dir answer_in_pieces ?f empty_world)"
  have p: "os_path_join download_dir ?f = ?p"
    by (simp add: os_path_join_def download_dir_def)
  have h: "fst (download_file download_dir answer_in_pieces ?f empty_world) = Inr ?p"
    by (simp add: download_file_unfold download_attempt_def download_try_def answer_in_pieces_def
        Let_def p)
  have r: "requests ?w = [''https://divvy-tripdata.s3.amazonaws.com/Divvy_Trips_2018_Q4.zip'']"
    by (simp add: download_file_unfold download_attempt_def download_try_def answer_in_pieces_def
        Let_def empty_world_def BASE_URI_def)
  have wr: "writes ?w = map (Pair ?p) (iter_chunked 1024 [[80, 75], [3, 4]])"
    by (simp add: download_file_unfold download_attempt_def download_try_def answer_in_pieces_def
        Let_def empty_world_def p)
  from fetch_success [OF h]
  obtain k r' where "answer_in_pieces (BASE_URI ?f) k = GetReturns r'" and "files ?w ?p = Some (body r')"
    by blast
  then have "files ?w ?p = Some [80, 75, 3, 4]"
    by (auto simp: answer_in_pieces_def)
  with h r p wr show ?thesis
    by simp
qed

subsection \<open>C10: a partly written file\<close>

text \<open>
  Against C10 as stated (every attempt after a partly written one reopens the local
  file in truncating mode): the first attempt writes two bytes and then times out, the
  second and the third get status 503 and fail before the file is opened, so the file is
  never reopened and still holds the two bytes when the fetch gives up.
\<close>

theorem partial_file_not_reopened_counterexample:
  "files (snd (download_attempt download_dir (\<lambda>uri. interrupted_then_unavailable uri 1)
      ''Divvy_Trips_2019_Q2.zip'' empty_world)) ''downloads/Divvy_Trips_2019_Q2.zip'' = Some [80, 75] \<and>
   fst (download_file download_dir interrupted_then_unavailable ''Divvy_Trips_2019_Q2.zip'' empty_world) =
     Inl (RetryError (ConnectionError ''Divvy_Trips_2019_Q2.zip'' (ClientResponseError 503))) \<and>
   length (requests (snd (download_file download_dir interrupted_then_unavailable
      ''Divvy_Trips_2019_Q2.zip'' empty_world))) = 3 \<and>
   files (snd (download_file download_dir interrupted_then_unavailable
      ''Divvy_Trips_2019_Q2.zip'' empty_world)) ''downloads/Divvy_Trips_2019_Q2.zip'' = Some [80, 75] \<and>
   writes (snd (download_file download_dir interrupted_then_unavailable
      ''Divvy_Trips_2019_Q2.zip'' empty_world)) = [(''downloads/Divvy_Trips_2019_Q2.zip'', [80, 75])]"
  by code_simp

text \<open>
  C10, amended. An attempt whose stream raises after delivering some bytes fails and
  leaves the bytes written so far in the local file; nothing removes them. A later
  attempt that gets as far as opening the local file replaces whatever the file held by
  the bytes of its own response (the file is opened in mode \<^verbatim>\<open>wb\<close>), and an attempt
  that fails before opening the file leaves the files untouched. So when the fetch
  returns, the file holds exactly the body of the response of the attempt that
  succeeded, with nothing of an earlier attempt before it.
\<close>

theorem partial_file_is_overwritten:
  "(server (BASE_URI f) = GetReturns r \<and> status r < 400 \<and> open_error r = None \<and>
    stream_error r = Some e \<longrightarrow>
      (\<exists>x. fst (download_attempt d server f w) = Inl x) \<and>
      files (snd (download_attempt d server f w)) (os_path_join d f) = Some (body r)) \<and>
   (server (BASE_URI f) = GetReturns r \<and> status r < 400 \<and> open_error r = None \<longrightarrow>
      files (snd (download_attempt d server f w)) = (files w)(os_path_join d f \<mapsto> body r)) \<and>
   ((\<forall>r'. server (BASE_URI f) = GetReturns r' \<longrightarrow> 400 \<le> status r' \<or> open_error r' \<noteq> None) \<longrightarrow>
      files (snd (download_attempt d server f w)) = files w) \<and>
   (fst (download_file d net f w) = Inr p \<longrightarrow>
      (\<exists>k\<in>{1, 2, 3}. \<exists>r'. net (BASE_URI f) k = GetReturns r' \<and> stream_error r' = None \<and>
         files (snd (download_file d net f w)) p = Some (body r')))"
proof -
  have "\<exists>k\<in>{1, 2, 3}. \<exists>r'. net (BASE_URI f) k = GetReturns r' \<and> stream_error r' = None \<and>
      files (snd (download_file d net f w)) p = Some (body r')"
    if "fst (download_file d net f w) = Inr p"
  proof -
    from that have "download_file d net f w = (Inr p, snd (download_file d net f w))"
      by (cases "download_file d net f w") simp
    from download_file_Inr [OF this] show ?thesis by blast
  qed
  then show ?thesis
    using attempt_opened [of server f r d w] attempt_stream_error [of server f r e d w]
      attempt_unopened [of server f d w]
    by simp
qed

theorem partial_file_is_overwritten_witness:
  "files (snd (download_attempt download_dir (\<lambda>uri. interrupted_once uri 1) ''Divvy_Trips_2019_Q2.zip'' empty_world))
     ''downloads/Divvy_Trips_2019_Q2.zip'' = Some [80, 75] \<and>
   fst (download_attempt download_dir (\<lambda>uri. interrupted_once uri 1) ''Divvy_Trips_2019_Q2.zip'' empty_world) =
     Inl (ConnectionError ''Divvy_Trips_2019_Q2.zip'' TimeoutError) \<and>
   fst (download_file download_dir interrupted_once ''Divvy_Trips_2019_Q2.zip'' empty_world) =
     Inr ''downloads/Divvy_Trips_2019_Q2.zip'' \<and>
   files (snd (download_file download_dir interrupted_once ''Divvy_Trips_2019_Q2.zip'' empty_world))
     ''downloads/Divvy_Trips_2019_Q2.zip'' = Some [80, 75, 3, 4] \<and>
   files (snd (download_attempt download_dir (\<lambda>uri. refuse_connection uri 1) ''Divvy_Trips_2019_Q2.zip'' empty_world)) =
     files empty_world"
proof -
  let ?f = "''Divvy_Trips_2019_Q2.zip''"
  let ?p = "''downloads/Divvy_Trips_2019_Q2.zip''"
  let ?r = "\<lparr>status = 200, open_error = None, arrivals = [[80, 75]], stream_error = Some TimeoutError\<rparr>"
  have p: "os_path_join download_dir ?f = ?p"
    by (simp add: os_path_join_def download_dir_def)
  have h: "fst (download_file download_dir interrupted_once ?f empty_world) = Inr ?p"
    by (simp add: download_file_unfold download_attempt_def download_try_def interrupted_once_def
        respond_def Let_def os_path_join_def download_dir_def)
  have last: "files (snd (download_file download_dir interrupted_once ?f empty_world)) ?p = Some [80, 75, 3, 4]"
    by (simp add: download_file_unfold download_attempt_def download_try_def interrupted_once_def
        respond_def Let_def os_path_join_def download_dir_def body_def)
  note a = partial_file_is_overwritten
    [of "\<lambda>uri. interrupted_once uri 1" ?f ?r TimeoutError download_dir empty_world interrupted_once ?p]
  note b = partial_file_is_overwritten
    [of "\<lambda>uri. refuse_connection uri 1" ?f ?r TimeoutError download_dir empty_world interrupted_once ?p]
  have first: "fst (download_attempt download_dir (\<lambda>uri. interrupted_once uri 1) ?f empty_world) =
      Inl (ConnectionError ?f TimeoutError)"
    by (simp add: download_attempt_def download_try_def interrupted_once_def Let_def)
  from a b h last first p show ?thesis
    by (simp add: interrupted_once_def refuse_connection_def)
qed

subsection \<open>Extraction and the handlers of the controller\<close>

lemma except_clauses_logs:
  "\<exists>m. except_clauses f e w = (Inr (), log_error m w) \<and> subject m = Some f \<and>
     (\<not> named_class e \<longrightarrow> m = UnexpectedError f e) \<and>
     ((\<exists>n c. e = ConnectionError n c) \<longleftrightarrow> m = ConnectionErrorWith f e) \<and>
     ((\<exists>t. e = FileNotFoundError t) \<longleftrightarrow> m = NotFoundOnServer f)"
  by (cases e) (auto split: exn.splits)

lemma log_error_inj: "log_error m w = log_error m' w \<Longrightarrow> m = m'"
  by (drule arg_cong [where f = logged]) (simp add: log_error_def)

lemma write_entries_dom: "p \<in> dom fs \<Longrightarrow> p \<in> dom (write_entries fs entries)"
proof (induction entries arbitrary: fs)
  case Nil
  then show ?case by simp
next
  case (Cons entry entries)
  obtain q content where entry: "entry = (q, content)"
    by (cases entry)
  from Cons.prems have "p \<in> dom (fs(q \<mapsto> content))"
    by simp
  then have "p \<in> dom (write_entries (fs(q \<mapsto> content)) entries)"
    by (rule Cons.IH)
  then show ?case
    unfolding entry write_entries.simps .
qed

lemma extract_zip_Inl:
  assumes "extract_zip unzip dir p fs = (Inl e, fs')" and "p \<in> dom fs"
  shows "p \<in> dom fs'"
  using assms write_entries_dom [of p fs]
  by (auto simp: extract_zip_def os_remove_def split: option.splits prod.splits)

lemma extract_zip_removed:
  assumes "p \<in> dom fs" and "p \<notin> dom (snd (extract_zip unzip dir p fs))"
  shows "fst (extract_zip unzip dir p fs) = Inr () \<and>
    (\<exists>archive entries. fs p = Some archive \<and> unzip dir archive = (entries, None))"
  using assms write_entries_dom [of p fs]
  by (auto simp: extract_zip_def os_remove_def split: option.splits prod.splits)

lemma extract_zip_raises:
  assumes "fs p = Some archive" and "unzip dir archive = (entries, Some e)"
  shows "extract_zip unzip dir p fs = (Inl e, write_entries fs entries)"
  using assms by (simp add: extract_zip_def)

lemma extract_thread_logged:
  "logged (snd (extract_zip_in_thread unzip dir p w)) = logged w"
  by (simp add: extract_zip_in_thread_def split: prod.splits)

lemma process_file_cases:
  "(\<exists>x. fst (download_file download_dir net f w) = Inl x \<and>
      process_file net unzip f w = except_clauses f x (snd (download_file download_dir net f w))) \<or>
   (\<exists>p e. fst (download_file download_dir net f w) = Inr p \<and>
      fst (extract_zip_in_thread unzip download_dir p (snd (download_file download_dir net f w))) = Inl e \<and>
      process_file net unzip f w =
        except_clauses f e (snd (extract_zip_in_thread unzip download_dir p (snd (download_file download_dir net f w))))) \<or>
   (\<exists>p. fst (download_file download_dir net f w) = Inr p \<and>
      fst (extract_zip_in_thread unzip download_dir p (snd (download_file download_dir net f w))) = Inr () \<and>
      fst (process_file_try net unzip f w) = Inr () \<and>
      process_file net unzip f w =
        (Inr (), log_info (Processed f)
           (snd (extract_zip_in_thread unzip download_dir p (snd (download_file download_dir net f w))))))"
  by (auto simp: process_file_def process_file_try_def split: prod.splits sum.splits)


lemma process_file_download_failed:
  assumes "fst (download_file download_dir net f w) = Inl x"
  shows "\<exists>cause. x = RetryError cause \<and> fst (process_file net unzip f w) = Inr () \<and>
    logged (snd (process_file net unzip f w)) =
      logged w @ [(ERROR, case cause of FileNotFoundError t \<Rightarrow> NotFoundAfterRetries f
                          | _ \<Rightarrow> UnexpectedRetryError f x)]"
proof -
  from download_file_Inl [OF assms] obtain cause where x: "x = RetryError cause"
    by blast
  obtain w1 where d: "download_file download_dir net f w = (Inl x, w1)"
    using assms by (cases "download_file download_dir net f w") auto
  have "logged w1 = logged w"
    using download_file_logged [of download_dir net f w] d by simp
  with d x show ?thesis
    by (auto simp: process_file_def process_file_try_def log_error_def split: exn.splits)
qed

lemma process_file_extract_failed:
  assumes "fst (download_file download_dir net f w) = Inr p"
    and "fst (extract_zip_in_thread unzip download_dir p (snd (download_file download_dir net f w))) = Inl e"
  shows "fst (process_file net unzip f w) = Inr () \<and>
    p \<in> dom (files (snd (process_file net unzip f w))) \<and>
    (\<exists>m. snd (except_clauses f e w) = log_error m w \<and>
         logged (snd (process_file net unzip f w)) = logged w @ [(ERROR, m)])"
proof -
  obtain w1 where d: "download_file download_dir net f w = (Inr p, w1)"
    using assms(1) by (cases "download_file download_dir net f w") auto
  obtain fs2 where x: "extract_zip unzip download_dir p (files w1) = (Inl e, fs2)"
    using assms(2) d
    by (cases "extract_zip unzip download_dir p (files w1)") (auto simp: extract_zip_in_thread_def)
  have "p \<in> dom (files w1)"
    using download_file_Inr [OF d] by auto
  with x have kept: "p \<in> dom fs2"
    by (rule extract_zip_Inl)
  have l: "logged w1 = logged w"
    using download_file_logged [of download_dir net f w] d by simp
  have "\<exists>m. \<forall>w'. except_clauses f e w' = (Inr (), log_error m w')"
  proof (cases e)
    case (RetryError cause)
    then show ?thesis by (cases cause) auto
  qed auto
  then obtain m where m: "\<And>w'. except_clauses f e w' = (Inr (), log_error m w')"
    by blast
  have "process_file net unzip f w = (Inr (), log_error m (w1\<lparr>files := fs2\<rparr>))"
    using d x m by (simp add: process_file_def process_file_try_def extract_zip_in_thread_def)
  with kept l m show ?thesis
    by (auto simp: log_error_def)
qed

subsection \<open>C3: a failed extraction\<close>

text \<open>
  What the code does when the extraction fails. \<^verbatim>\<open>extract_zip\<close> removes the archive
  only after \<^verbatim>\<open>ZipFile\<close> and \<^verbatim>\<open>extractall\<close> have raised nothing: when the extraction
  fails the archive is still on disk, and an archive that is gone means that the
  extraction succeeded. When the failure follows a successful download,
  \<^verbatim>\<open>process_file\<close> returns normally, the archive is still on disk and exactly one error
  record is logged, the one chosen by the \<^verbatim>\<open>except\<close> clauses: for an exception of a
  class that no earlier clause names it is the unexpected-error record, for a
  FileNotFoundError the record of a file not found on the server, for a ConnectionError
  the record of a connection error. The example is an archive that is not a zip file.
\<close>

lemma failed_extraction_keeps_archive:
  "(fst (extract_zip unzip dir p fs) = Inl e \<and> p \<in> dom fs \<longrightarrow>
      p \<in> dom (snd (extract_zip unzip dir p fs))) \<and>
   (p \<in> dom fs \<and> p \<notin> dom (snd (extract_zip unzip dir p fs)) \<longrightarrow>
      fst (extract_zip unzip dir p fs) = Inr () \<and>
      (\<exists>archive entries. fs p = Some archive \<and> unzip dir archive = (entries, None))) \<and>
   (fs p = Some archive \<and> unzip dir archive = (entries, Some e) \<longrightarrow>
      fst (extract_zip unzip dir p fs) = Inl e) \<and>
   (fst (download_file download_dir net f w) = Inr zip_path \<and>
    fst (extract_zip_in_thread unzip download_dir zip_path (snd (download_file download_dir net f w))) = Inl e \<longrightarrow>
      fst (process_file net unzip f w) = Inr () \<and>
      zip_path \<in> dom (files (snd (process_file net unzip f w))) \<and>
      (\<exists>m. snd (except_clauses f e w) = log_error m w \<and>
           logged (snd (process_file net unzip f w)) = logged w @ [(ERROR, m)] \<and>
           (\<not> named_class e \<longrightarrow> m = UnexpectedError f e) \<and>
           ((\<exists>t. e = FileNotFoundError t) \<longrightarrow> m = NotFoundOnServer f) \<and>
           ((\<exists>n c. e = ConnectionError n c) \<longrightarrow> m = ConnectionErrorWith f e)))"
proof -
  have a: "p \<in> dom (snd (extract_zip unzip dir p fs))"
    if "fst (extract_zip unzip dir p fs) = Inl e" and "p \<in> dom fs"
    using extract_zip_Inl [of unzip dir p fs e "snd (extract_zip unzip dir p fs)"] that
    by (cases "extract_zip unzip dir p fs") auto
  have b: "fst (extract_zip unzip dir p fs) = Inl e"
    if "fs p = Some archive" and "unzip dir archive = (entries, Some e)"
    using extract_zip_raises [of fs p archive unzip dir entries e] that by simp
  have c: "fst (process_file net unzip f w) = Inr () \<and>
      zip_path \<in> dom (files (snd (process_file net unzip f w))) \<and>
      (\<exists>m. snd (except_clauses f e w) = log_error m w \<and>
           logged (snd (process_file net unzip f w)) = logged w @ [(ERROR, m)] \<and>
           (\<not> named_class e \<longrightarrow> m = UnexpectedError f e) \<and>
           ((\<exists>t. e = FileNotFoundError t) \<longrightarrow> m = NotFoundOnServer f) \<and>
           ((\<exists>n c. e = ConnectionError n c) \<longrightarrow> m = ConnectionErrorWith f e))"
    if d: "fst (download_file download_dir net f w) = Inr zip_path"
      and x: "fst (extract_zip_in_thread unzip download_dir zip_path
                (snd (download_file download_dir net f w))) = Inl e"
  proof -
    from process_file_extract_failed [OF d x] obtain m where
      m: "fst (process_file net unzip f w) = Inr ()"
         "zip_path \<in> dom (files (snd (process_file net unzip f w)))"
         "snd (except_clauses f e w) = log_error m w"
         "logged (snd (process_file net unzip f w)) = logged w @ [(ERROR, m)]"
      by blast
    have "m = UnexpectedError f e" if "\<not> named_class e"
      using that m(3) by (cases e) (auto dest: log_error_inj)
    moreover have "m = NotFoundOnServer f" if "e = FileNotFoundError t" for t
      using that m(3) by (auto dest: log_error_inj)
    moreover have "m = ConnectionErrorWith f e" if "e = ConnectionError n c" for n c
      using that m(3) by (auto dest: log_error_inj)
    ultimately show ?thesis using m by blast
  qed
  from a b c extract_zip_removed [of p fs unzip dir] show ?thesis
    by blast
qed

lemma failed_extraction_keeps_archive_example:
  "fst (download_file download_dir answer_ok ''Divvy_Trips_2019_Q4.zip'' empty_world) =
     Inr ''downloads/Divvy_Trips_2019_Q4.zip'' \<and>
   fst (extract_zip_in_thread unzip_bad_archive download_dir ''downloads/Divvy_Trips_2019_Q4.zip''
         (snd (download_file download_dir answer_ok ''Divvy_Trips_2019_Q4.zip'' empty_world))) =
     Inl (OtherError ''BadZipFile: File is not a zip file'') \<and>
   ''downloads/Divvy_Trips_2019_Q4.zip'' \<in>
     dom (files (snd (process_file answer_ok unzip_bad_archive ''Divvy_Trips_2019_Q4.zip'' empty_world))) \<and>
   logged (snd (process_file answer_ok unzip_bad_archive ''Divvy_Trips_2019_Q4.zip'' empty_world)) =
     [(ERROR, UnexpectedError ''Divvy_Trips_2019_Q4.zip'' (OtherError ''BadZipFile: File is not a zip file''))]"
proof -
  let ?f = "''Divvy_Trips_2019_Q4.zip''"
  let ?p = "''downloads/Divvy_Trips_2019_Q4.zip''"
  let ?e = "OtherError ''BadZipFile: File is not a zip file''"
  have d: "fst (download_file download_dir answer_ok ?f empty_world) = Inr ?p"
    by (simp add: download_file_unfold download_attempt_def download_try_def answer_ok_def
        respond_def Let_def os_path_join_def download_dir_def)
  have x: "fst (extract_zip_in_thread unzip_bad_archive download_dir ?p
      (snd (download_file download_dir answer_ok ?f empty_world))) = Inl ?e"
    by (simp add: download_file_unfold download_attempt_def download_try_def answer_ok_def
        respond_def Let_def os_path_join_def download_dir_def extract_zip_in_thread_def
        extract_zip_def unzip_bad_archive_def)
  from failed_extraction_keeps_archive
    [of unzip_bad_archive download_dir ?p Map.empty ?e "[]" "[]" answer_ok ?f empty_world ?p]
    d x
  obtain m where "?p \<in> dom (files (snd (process_file answer_ok unzip_bad_archive ?f empty_world)))"
    and "logged (snd (process_file answer_ok unzip_bad_archive ?f empty_world)) =
      logged empty_world @ [(ERROR, m)]"
    and "m = UnexpectedError ?f ?e"
    by auto
  with d x show ?thesis
    by (simp add: empty_world_def)
qed

text \<open>
  C3 says that every failure of the extraction leaves the archive on disk and is
  reported as an unexpected failure. The code keeps the archive, but it does not always
  report the failure so: here the download succeeds and \<^verbatim>\<open>extractall\<close> raises
  FileNotFoundError for a member it cannot create. The \<^verbatim>\<open>try\<close> block of
  \<^verbatim>\<open>process_file\<close> covers the extraction too, the clause for FileNotFoundError stands
  before the last one, and the record logged says that the file, which has just been
  downloaded, was not found on the server.
\<close>

theorem extraction_not_found_logged_as_missing:
  "fst (download_file download_dir answer_ok ''Divvy_Trips_2019_Q3.zip'' empty_world) =
     Inr ''downloads/Divvy_Trips_2019_Q3.zip'' \<and>
   fst (extract_zip_in_thread unzip_missing_member download_dir ''downloads/Divvy_Trips_2019_Q3.zip''
         (snd (download_file download_dir answer_ok ''Divvy_Trips_2019_Q3.zip'' empty_world))) =
     Inl (FileNotFoundError ''downloads/trips/Divvy_Trips_2019_Q3.csv'') \<and>
   logged (snd (process_file answer_ok unzip_missing_member ''Divvy_Trips_2019_Q3.zip'' empty_world)) =
     [(ERROR, NotFoundOnServer ''Divvy_Trips_2019_Q3.zip'')] \<and>
   logged (snd (process_file answer_ok unzip_missing_member ''Divvy_Trips_2019_Q3.zip'' empty_world)) \<noteq>
     [(ERROR, UnexpectedError ''Divvy_Trips_2019_Q3.zip''
        (FileNotFoundError ''downloads/trips/Divvy_Trips_2019_Q3.csv''))]"
  by (simp add: process_file_def process_file_try_def download_file_unfold download_attempt_def
      download_try_def extract_zip_in_thread_def extract_zip_def answer_ok_def respond_def
      unzip_missing_member_def empty_world_def os_path_join_def download_dir_def log_error_def Let_def)

subsection \<open>C9: the handler for ConnectionError\<close>

lemma connection_handler_reached_unfolded:
  "logged (snd (process_file answer_ok unzip_connection_reset ''Divvy_Trips_2020_Q1.zip'' empty_world)) =
     [(ERROR, ConnectionErrorWith ''Divvy_Trips_2020_Q1.zip''
        (ConnectionError ''[Errno 104] Connection reset by peer'' (OtherError ''OSError'')))]"
  by (simp add: process_file_def process_file_try_def download_file_unfold download_attempt_def
      download_try_def extract_zip_in_thread_def extract_zip_def answer_ok_def respond_def
      unzip_connection_reset_def empty_world_def os_path_join_def download_dir_def log_error_def Let_def)

text \<open>
  Against C9 as stated (the record for a connection error is never logged): the
  \<^verbatim>\<open>try\<close> block also covers the extraction, so a ConnectionError raised while the
  archive is unpacked reaches the clause for ConnectionError.
\<close>

theorem connection_handler_reached_counterexample:
  "fst (download_file download_dir answer_ok ''Divvy_Trips_2020_Q1.zip'' empty_world) =
     Inr ''downloads/Divvy_Trips_2020_Q1.zip'' \<and>
   logged (snd (process_file answer_ok unzip_connection_reset ''Divvy_Trips_2020_Q1.zip'' empty_world)) =
     [(ERROR, ConnectionErrorWith ''Divvy_Trips_2020_Q1.zip''
        (ConnectionError ''[Errno 104] Connection reset by peer'' (OtherError ''OSError'')))]"
  by (simp add: process_file_def process_file_try_def download_file_unfold download_attempt_def
      download_try_def extract_zip_in_thread_def extract_zip_def answer_ok_def respond_def
      unzip_connection_reset_def empty_world_def os_path_join_def download_dir_def log_error_def Let_def)

text \<open>
  C9, amended. The fetch never raises a bare ConnectionError: a ConnectionError raised
  by the first attempt is followed by another attempt, and one raised by the third
  attempt leaves the fetch wrapped in a RetryError. So a failed fetch is reported by the
  clause for RetryError, never by the clause for ConnectionError. The record for a
  connection error is logged only when the download succeeded and the extraction itself
  raised a ConnectionError.
\<close>

theorem fetch_wraps_connection_error:
  "fst (download_file d net f w) \<noteq> Inl (ConnectionError n c) \<and>
   (fst (download_attempt d (\<lambda>uri. net uri 1) f w) = Inl (ConnectionError n c) \<longrightarrow>
      (\<exists>k\<in>{2, 3}. requests (snd (download_file d net f w)) = requests w @ replicate k (BASE_URI f))) \<and>
   (fst (download_attempt d (\<lambda>uri. net uri 1) f w) = Inl e1 \<and>
    fst (download_attempt d (\<lambda>uri. net uri 2) f w) = Inl e2 \<and>
    fst (download_attempt d (\<lambda>uri. net uri 3) f w) = Inl (ConnectionError n c) \<longrightarrow>
      fst (download_file d net f w) = Inl (RetryError (ConnectionError n c))) \<and>
   (fst (download_file download_dir net f w) = Inl x \<longrightarrow>
      (\<exists>m. logged (snd (process_file net unzip f w)) = logged w @ [(ERROR, m)] \<and>
           (m = NotFoundAfterRetries f \<or> m = UnexpectedRetryError f x))) \<and>
   (logged (snd (process_file net unzip f w)) = logged w @ [(l, ConnectionErrorWith f' e)] \<longrightarrow>
      (\<exists>p n' c'. fst (download_file download_dir net f w) = Inr p \<and>
         fst (extract_zip_in_thread unzip download_dir p (snd (download_file download_dir net f w))) = Inl e \<and>
         e = ConnectionError n' c'))"
proof -
  have a: "fst (download_file d net f w) \<noteq> Inl (ConnectionError n c)"
    using download_file_Inl [of d net f w "ConnectionError n c"] by auto
  have b: "\<exists>m. logged (snd (process_file net unzip f w)) = logged w @ [(ERROR, m)] \<and>
      (m = NotFoundAfterRetries f \<or> m = UnexpectedRetryError f x)"
    if "fst (download_file download_dir net f w) = Inl x" for x
  proof -
    from process_file_download_failed [OF that, of unzip] obtain cause where
      "logged (snd (process_file net unzip f w)) =
        logged w @ [(ERROR, case cause of FileNotFoundError t \<Rightarrow> NotFoundAfterRetries f
                            | _ \<Rightarrow> UnexpectedRetryError f x)]"
      by blast
    then show ?thesis
      by (cases cause) simp_all
  qed
  have c: "\<exists>p n' c'. fst (download_file download_dir net f w) = Inr p \<and>
      fst (extract_zip_in_thread unzip download_dir p (snd (download_file download_dir net f w))) = Inl e \<and>
      e = ConnectionError n' c'"
    if l: "logged (snd (process_file net unzip f w)) = logged w @ [(l, ConnectionErrorWith f' e)]"
  proof -
    consider (failed) x where "fst (download_file download_dir net f w) = Inl x"
      | (raised) p e' where "fst (download_file download_dir net f w) = Inr p"
          "fst (extract_zip_in_thread unzip download_dir p (snd (download_file download_dir net f w))) = Inl e'"
      | (ok) p where "fst (download_file download_dir net f w) = Inr p"
          "fst (extract_zip_in_thread unzip download_dir p (snd (download_file download_dir net f w))) = Inr ()"
          "process_file net unzip f w =
            (Inr (), log_info (Processed f)
              (snd (extract_zip_in_thread unzip download_dir p (snd (download_file download_dir net f w)))))"
      using process_file_cases [of net f w unzip] by blast
    then show ?thesis
    proof cases
      case failed
      from b [OF failed] l show ?thesis by auto
    next
      case raised
      from process_file_extract_failed [OF raised] obtain m where
        m: "snd (except_clauses f e' w) = log_error m w"
           "logged (snd (process_file net unzip f w)) = logged w @ [(ERROR, m)]"
        by blast
      from m(2) l have "m = ConnectionErrorWith f' e" by simp
      with m(1) have "\<exists>n' c'. e' = ConnectionError n' c' \<and> e = e'"
        by (cases e') (auto dest!: log_error_inj split: exn.splits)
      with raised show ?thesis by auto
    next
      case ok
      with l show ?thesis
        using download_file_logged [of download_dir net f w]
          extract_thread_logged [of unzip download_dir p "snd (download_file download_dir net f w)"]
        by (simp add: log_info_def)
    qed
  qed
  from a b c download_file_second_attempt [of d net f w "ConnectionError n c"]
    download_file_all_fail [of d net f w e1 e2 "ConnectionError n c"]
  show ?thesis
    by blast
qed

theorem fetch_wraps_connection_error_witness:
  "fst (download_attempt download_dir (\<lambda>uri. refuse_connection uri 1) ''Divvy_Trips_2020_Q1.zip'' empty_world) =
     Inl (ConnectionError ''Divvy_Trips_2020_Q1.zip'' ClientConnectorError) \<and>
   fst (download_attempt download_dir (\<lambda>uri. refuse_connection uri 2) ''Divvy_Trips_2020_Q1.zip'' empty_world) =
     Inl (ConnectionError ''Divvy_Trips_2020_Q1.zip'' ClientConnectorError) \<and>
   fst (download_attempt download_dir (\<lambda>uri. refuse_connection uri 3) ''Divvy_Trips_2020_Q1.zip'' empty_world) =
     Inl (ConnectionError ''Divvy_Trips_2020_Q1.zip'' ClientConnectorError) \<and>
   fst (download_file download_dir refuse_connection ''Divvy_Trips_2020_Q1.zip'' empty_world) =
     Inl (RetryError (ConnectionError ''Divvy_Trips_2020_Q1.zip'' ClientConnectorError)) \<and>
   logged (snd (process_file refuse_connection unzip_nothing ''Divvy_Trips_2020_Q1.zip'' empty_world)) =
     [(ERROR, UnexpectedRetryError ''Divvy_Trips_2020_Q1.zip''
        (RetryError (ConnectionError ''Divvy_Trips_2020_Q1.zip'' ClientConnectorError)))] \<and>
   logged (snd (process_file answer_ok unzip_connection_reset ''Divvy_Trips_2020_Q1.zip'' empty_world)) =
     logged empty_world @ [(ERROR, ConnectionErrorWith ''Divvy_Trips_2020_Q1.zip''
        (ConnectionError ''[Errno 104] Connection reset by peer'' (OtherError ''OSError'')))] \<and>
   fst (extract_zip_in_thread unzip_connection_reset download_dir ''downloads/Divvy_Trips_2020_Q1.zip''
         (snd (download_file download_dir answer_ok ''Divvy_Trips_2020_Q1.zip'' empty_world))) =
     Inl (ConnectionError ''[Errno 104] Connection reset by peer'' (OtherError ''OSError''))"
proof -
  let ?f = "''Divvy_Trips_2020_Q1.zip''"
  let ?e = "ConnectionError ?f ClientConnectorError"
  let ?r = "ConnectionError ''[Errno 104] Connection reset by peer'' (OtherError ''OSError'')"
  have h: "fst (download_attempt download_dir (\<lambda>uri. refuse_connection uri k) ?f empty_world) = Inl ?e" for k
    by (simp add: download_attempt_def download_try_def refuse_connection_def Let_def)
  note A = fetch_wraps_connection_error
    [where d = download_dir and net = refuse_connection and f = ?f and w = empty_world
       and n = ?f and c = ClientConnectorError and ?e1.0 = ?e and ?e2.0 = ?e and x = "RetryError ?e"
       and unzip = unzip_nothing and l = ERROR and f' = ?f and e = ?r]
  from A h [of 1] h [of 2] h [of 3]
  have failed: "fst (download_file download_dir refuse_connection ?f empty_world) = Inl (RetryError ?e)"
    by blast
  with A obtain m where
    "logged (snd (process_file refuse_connection unzip_nothing ?f empty_world)) = logged empty_world @ [(ERROR, m)]"
    and "m = NotFoundAfterRetries ?f \<or> m = UnexpectedRetryError ?f (RetryError ?e)"
    by blast
  moreover have "logged (snd (process_file refuse_connection unzip_nothing ?f empty_world)) \<noteq>
      logged empty_world @ [(ERROR, NotFoundAfterRetries ?f)]"
    using failed
    by (cases "download_file download_dir refuse_connection ?f empty_world")
      (simp add: process_file_def process_file_try_def log_error_def)
  ultimately have first: "logged (snd (process_file refuse_connection unzip_nothing ?f empty_world)) =
      [(ERROR, UnexpectedRetryError ?f (RetryError ?e))]"
    by (auto simp: empty_world_def)
  have reached: "logged (snd (process_file answer_ok unzip_connection_reset ?f empty_world)) =
      logged empty_world @ [(ERROR, ConnectionErrorWith ?f ?r)]"
    using connection_handler_reached_unfolded by (simp add: empty_world_def)
  note B = fetch_wraps_connection_error
    [where d = download_dir and net = answer_ok and f = ?f and w = empty_world
       and n = ?f and c = ClientConnectorError and ?e1.0 = ?e and ?e2.0 = ?e and x = "RetryError ?e"
       and unzip = unzip_connection_reset and l = ERROR and f' = ?f and e = ?r]
  have ok: "fst (download_file download_dir answer_ok ?f empty_world) = Inr ''downloads/Divvy_Trips_2020_Q1.zip''"
    by (simp add: download_file_unfold download_attempt_def download_try_def answer_ok_def
        respond_def Let_def os_path_join_def download_dir_def)
  from B reached ok
  have "fst (extract_zip_in_thread unzip_connection_reset download_dir ''downloads/Divvy_Trips_2020_Q1.zip''
         (snd (download_file download_dir answer_ok ?f empty_world))) = Inl ?r"
    by auto
  with h [of 1] h [of 2] h [of 3] failed first reached show ?thesis
    by simp
qed

section \<open>Properties of the event loop\<close>

lemma except_clauses_message:
  "\<exists>m. except_clauses f e w = (Inr (), log_error m w) \<and> subject m = Some f"
proof (cases e)
  case (RetryError cause)
  then show ?thesis by (cases cause) auto
qed auto

lemma filter_update_count:
  "i < length ts \<Longrightarrow>
   length (filter P (ts[i := v])) + (if P (ts ! i) then 1 else 0) =
   length (filter P ts) + (if P v then 1 else 0)"
proof (induction ts arbitrary: i)
  case Nil
  then show ?case by simp
next
  case (Cons t ts)
  show ?case
  proof (cases i)
    case 0
    then show ?thesis by simp
  next
    case (Suc j)
    with Cons.prems have "j < length ts" by simp
    from Cons.IH [OF this] Suc show ?thesis by simp
  qed
qed

lemma filter_update_mset:
  "i < length ts \<Longrightarrow>
   mset (map g (filter P (ts[i := v]))) + (if P (ts ! i) then {#g (ts ! i)#} else {#}) =
   mset (map g (filter P ts)) + (if P v then {#g v#} else {#})"
proof (induction ts arbitrary: i)
  case Nil
  then show ?case by simp
next
  case (Cons t ts)
  show ?case
  proof (cases i)
    case 0
    then show ?thesis by simp
  next
    case (Suc j)
    with Cons.prems have "j < length ts" by simp
    from Cons.IH [OF this] Suc show ?thesis by (simp split: if_splits)
  qed
qed

lemma task_step_summary:
  assumes "i < length (tasks c)" and "tasks c ! i = (f, ph)"
  shows "\<exists>ph' items.
    tasks (task_step net unzip i c) = (tasks c)[i := (f, ph')] \<and>
    logged (shared (task_step net unzip i c)) = logged (shared c) @ items \<and>
    main (task_step net unzip i c) = main c \<and>
    semaphore (task_step net unzip i c) + (if ph' = Downloading then 1 else 0) =
      semaphore c + (if ph = Downloading then 1 else 0) \<and>
    (\<forall>e. ph' = Escaped e \<longrightarrow> ph = Escaped e) \<and>
    (ph = Done \<longrightarrow> ph' = Done) \<and>
    map (subject \<circ> snd) items = (if ph' = Done \<and> ph \<noteq> Done then [Some f] else [])"
proof -
  have same: "(tasks c)[i := (f, ph)] = tasks c"
    using assms(2) list_update_id [of "tasks c" i] by simp
  show ?thesis
  proof (cases ph)
  case Pending
  show ?thesis
  proof (cases "semaphore c = 0")
    case True
    with assms Pending have "task_step net unzip i c = c"
      by (simp add: task_step_def)
    with assms Pending show ?thesis
      by (intro exI [of _ Pending] exI [of _ "[]"]) (use same in simp)
  next
    case False
    with assms Pending have "task_step net unzip i c =
        c\<lparr>semaphore := semaphore c - 1, tasks := (tasks c)[i := (f, Downloading)]\<rparr>"
      by (simp add: task_step_def)
    with False Pending show ?thesis
      by (intro exI [of _ Downloading] exI [of _ "[]"]) simp
  qed
next
  case Downloading
  obtain r w where d: "download_file download_dir net f (shared c) = (r, w)"
    by (cases "download_file download_dir net f (shared c)")
  have l: "logged w = logged (shared c)"
    using download_file_logged [of download_dir net f "shared c"] d by simp
  show ?thesis
  proof (cases r)
    case (Inr p)
    with assms Downloading d have "task_step net unzip i c =
        c\<lparr>shared := w, semaphore := semaphore c + 1, tasks := (tasks c)[i := (f, Extracting p)]\<rparr>"
      by (simp add: task_step_def)
    with l Downloading show ?thesis
      by (intro exI [of _ "Extracting p"] exI [of _ "[]"]) simp
  next
    case (Inl e)
    obtain m where m: "except_clauses f e w = (Inr (), log_error m w)" "subject m = Some f"
      using except_clauses_message [of f e w] by blast
    with assms Downloading d Inl have "task_step net unzip i c =
        c\<lparr>shared := log_error m w, semaphore := semaphore c + 1, tasks := (tasks c)[i := (f, Done)]\<rparr>"
      by (simp add: task_step_def)
    with l m Downloading show ?thesis
      by (intro exI [of _ Done] exI [of _ "[(ERROR, m)]"]) (simp add: log_error_def)
  qed
next
  case (Extracting p)
  obtain r w where x: "extract_zip_in_thread unzip download_dir p (shared c) = (r, w)"
    by (cases "extract_zip_in_thread unzip download_dir p (shared c)")
  have l: "logged w = logged (shared c)"
    using extract_thread_logged [of unzip download_dir p "shared c"] x by simp
  show ?thesis
  proof (cases r)
    case (Inr u)
    with assms Extracting x have "task_step net unzip i c =
        c\<lparr>shared := log_info (Processed f) w, tasks := (tasks c)[i := (f, Done)]\<rparr>"
      by (simp add: task_step_def)
    with l Extracting show ?thesis
      by (intro exI [of _ Done] exI [of _ "[(INFO, Processed f)]"]) (simp add: log_info_def)
  next
    case (Inl e)
    obtain m where m: "except_clauses f e w = (Inr (), log_error m w)" "subject m = Some f"
      using except_clauses_message [of f e w] by blast
    with assms Extracting x Inl have "task_step net unzip i c =
        c\<lparr>shared := log_error m w, tasks := (tasks c)[i := (f, Done)]\<rparr>"
      by (simp add: task_step_def)
    with l m Extracting show ?thesis
      by (intro exI [of _ Done] exI [of _ "[(ERROR, m)]"]) (simp add: log_error_def)
  qed
next
  case Done
  with assms have "task_step net unzip i c = c"
    by (simp add: task_step_def)
  with assms Done show ?thesis
    by (intro exI [of _ Done] exI [of _ "[]"]) (use same in simp)
next
  case (Escaped e)
  with assms have "task_step net unzip i c = c"
    by (simp add: task_step_def)
  with assms Escaped show ?thesis
    by (intro exI [of _ "Escaped e"] exI [of _ "[]"]) (use same in simp)
  qed
qed


lemma escaped_None: "escaped ts = None \<longleftrightarrow> (\<forall>t\<in>set ts. \<forall>e. snd t \<noteq> Escaped e)"
  by (induction ts rule: escaped.induct) auto

lemma invariant_init: "invariant w names (init_controller w)"
  by (simp add: invariant_def init_controller_def in_flight_def)

lemma all_done_names:
  "list_all (\<lambda>(file_name, ph). ph = Done) ts \<Longrightarrow>
   map fst (filter (\<lambda>(file_name, ph). ph = Done) ts) = map fst ts"
  by (induction ts) auto

lemma invariant_main_step:
  assumes "invariant w names c"
  shows "invariant w names (main_step names c)"
proof (cases "main c")
  case NotStarted
  have "filter (\<lambda>(file_name, ph). ph = Downloading) (map (\<lambda>file_name. (file_name, Pending)) names) = []"
    by (induction names) auto
  moreover have "filter (\<lambda>(file_name, ph). ph = Done) (map (\<lambda>file_name. (file_name, Pending)) names) = []"
    by (induction names) auto
  ultimately show ?thesis
    using assms NotStarted
    by (auto simp: invariant_def main_step_def in_flight_def done_names_def log_info_def comp_def)
next
  case Gathering
  with assms have none: "escaped (tasks c) = None"
    by (simp add: invariant_def escaped_None)
  show ?thesis
  proof (cases "list_all (\<lambda>(file_name, ph). ph = Done) (tasks c)")
    case True
    with Gathering none have m: "main_step names c = c\<lparr>shared := log_info Finished (shared c), main := Returned\<rparr>"
      by (simp add: main_step_def)
    from assms Gathering obtain items where
      sem: "semaphore c + in_flight c = 5"
      and esc: "\<forall>t\<in>set (tasks c). \<forall>e. snd t \<noteq> Escaped e"
      and nm: "map fst (tasks c) = names"
      and lg: "logged (shared c) = logged w @ (INFO, Starting) # items"
      and ms: "mset (map (subject \<circ> snd) items) = mset (map Some (done_names c))"
      by (auto simp: invariant_def)
    from True have "done_names c = map fst (tasks c)"
      unfolding done_names_def by (rule all_done_names)
    with nm ms have ms': "mset (map (subject \<circ> snd) items) = mset (map Some names)"
      by simp
    have "\<exists>items'. logged (shared c) @ [(INFO, Finished)] =
        logged w @ (INFO, Starting) # items' @ [(INFO, Finished)] \<and>
        mset (map (subject \<circ> snd) items') = mset (map Some names)"
      using lg ms' by (intro exI [of _ items]) simp
    with sem esc nm True show ?thesis
      unfolding m invariant_def by (simp add: in_flight_def log_info_def)
  next
    case False
    with Gathering none have "main_step names c = c"
      by (simp add: main_step_def)
    with assms show ?thesis by simp
  qed
next
  case Returned
  then have "main_step names c = c"
    by (simp add: main_step_def)
  with assms show ?thesis by simp
next
  case (Aborted e)
  with assms show ?thesis
    by (simp add: invariant_def)
qed


lemma invariant_task_step:
  assumes "invariant w names c"
  shows "invariant w names (task_step net unzip i c)"
proof (cases "i < length (tasks c)")
  case False
  then have "task_step net unzip i c = c"
    by (simp add: task_step_def)
  with assms show ?thesis by simp
next
  case True
  let ?c' = "task_step net unzip i c"
  obtain f ph where t: "tasks c ! i = (f, ph)"
    by (cases "tasks c ! i")
  from task_step_summary [OF True t, of net unzip] obtain ph' items where
    T: "tasks ?c' = (tasks c)[i := (f, ph')]"
    and L: "logged (shared ?c') = logged (shared c) @ items"
    and M: "main ?c' = main c"
    and S: "semaphore ?c' + (if ph' = Downloading then 1 else 0) =
        semaphore c + (if ph = Downloading then 1 else 0)"
    and E: "\<forall>e. ph' = Escaped e \<longrightarrow> ph = Escaped e"
    and D: "ph = Done \<longrightarrow> ph' = Done"
    and I: "map (subject \<circ> snd) items = (if ph' = Done \<and> ph \<noteq> Done then [Some f] else [])"
    by blast
  from assms have sem: "semaphore c + in_flight c = 5"
    and esc: "\<forall>t\<in>set (tasks c). \<forall>e. snd t \<noteq> Escaped e"
    by (simp_all add: invariant_def)
  have mem: "(f, ph) \<in> set (tasks c)"
    using nth_mem [OF True] t by simp
  with esc have ph: "\<forall>e. ph \<noteq> Escaped e"
    by fastforce
  have "in_flight ?c' + (if ph = Downloading then 1 else 0) =
      in_flight c + (if ph' = Downloading then 1 else 0)"
    using filter_update_count [OF True, of "\<lambda>(file_name, ph). ph = Downloading" "(f, ph')"] t T
    by (simp add: in_flight_def)
  with S sem have I1: "semaphore ?c' + in_flight ?c' = 5"
    by (simp split: if_splits)
  have I2: "\<forall>t\<in>set (tasks ?c'). \<forall>e. snd t \<noteq> Escaped e"
  proof
    fix t' assume "t' \<in> set (tasks ?c')"
    with T have "t' = (f, ph') \<or> t' \<in> set (tasks c)"
      using set_update_subset_insert [of "tasks c" i "(f, ph')"] by auto
    with esc E ph show "\<forall>e. snd t' \<noteq> Escaped e"
      by auto
  qed
  have N: "map fst (tasks ?c') = map fst (tasks c)"
    using T t True by (simp add: map_update list_update_same_conv)
  have dn: "mset (done_names ?c') + (if ph = Done then {#f#} else {#}) =
      mset (done_names c) + (if ph' = Done then {#f#} else {#})"
    using filter_update_mset [OF True, of fst "\<lambda>(file_name, ph). ph = Done" "(f, ph')"] t T
    by (simp add: done_names_def split: if_splits)
  show ?thesis
  proof (cases "main c")
    case NotStarted
    with assms True show ?thesis
      by (simp add: invariant_def)
  next
    case Gathering
    with assms obtain items0 where
      nm: "map fst (tasks c) = names"
      and lg: "logged (shared c) = logged w @ (INFO, Starting) # items0"
      and ms: "mset (map (subject \<circ> snd) items0) = mset (map Some (done_names c))"
      by (auto simp: invariant_def)
    have "mset (map (subject \<circ> snd) (items0 @ items)) = mset (map Some (done_names ?c'))"
    proof (cases "ph' = Done \<and> ph \<noteq> Done")
      case True
      with dn have "mset (done_names ?c') = add_mset f (mset (done_names c))"
        by simp
      with True I ms show ?thesis
        by simp
    next
      case False
      with dn D have "mset (done_names ?c') = mset (done_names c)"
        by (auto split: if_splits)
      with False I ms show ?thesis
        by simp
    qed
    then have "\<exists>items'. logged (shared ?c') = logged w @ (INFO, Starting) # items' \<and>
        mset (map (subject \<circ> snd) items') = mset (map Some (done_names ?c'))"
      using L lg by (intro exI [of _ "items0 @ items"]) simp
    with I1 I2 N nm M Gathering show ?thesis
      by (simp add: invariant_def)
  next
    case Returned
    with assms have all: "list_all (\<lambda>(file_name, ph). ph = Done) (tasks c)"
      by (simp add: invariant_def)
    with mem have "ph = Done"
      by (auto simp: list_all_iff)
    with D I T t have same: "tasks ?c' = tasks c" and none: "items = []"
      using list_update_id [of "tasks c" i] by simp_all
    with assms Returned I1 I2 M L show ?thesis
      by (simp add: invariant_def)
  next
    case (Aborted e)
    with assms show ?thesis
      by (simp add: invariant_def)
  qed
qed

lemma invariant_step:
  "invariant w names c \<Longrightarrow> invariant w names (step net unzip names c pick)"
  by (cases pick) (simp_all add: invariant_main_step invariant_task_step)

lemma invariant_run_from:
  "invariant w names c \<Longrightarrow> invariant w names (run net unzip names schedule c)"
  unfolding run_def
  by (induction schedule arbitrary: c) (simp_all add: invariant_step)

lemma invariant_run: "invariant w names (run net unzip names schedule (init_controller w))"
  by (rule invariant_run_from) (rule invariant_init)

lemma run_append:
  "run net unzip names (a @ b) c = run net unzip names b (run net unzip names a c)"
  by (simp add: run_def)

lemma run_Cons:
  "run net unzip names (p # schedule) c = run net unzip names schedule (step net unzip names c p)"
  by (simp add: run_def)

lemma sum_update:
  "i < length ts \<Longrightarrow>
   sum_list (map g (ts[i := v])) + g (ts ! i) = sum_list (map g ts) + (g v :: nat)"
proof (induction ts arbitrary: i)
  case Nil
  then show ?case by simp
next
  case (Cons t ts)
  show ?case
  proof (cases i)
    case 0
    then show ?thesis by simp
  next
    case (Suc j)
    with Cons.prems have "j < length ts" by simp
    from Cons.IH [OF this] Suc show ?thesis by simp
  qed
qed

lemma task_step_progress:
  assumes "i < length (tasks c)" and "tasks c ! i = (f, ph)" and "ph \<noteq> Done"
    and "\<forall>e. ph \<noteq> Escaped e" and "ph = Pending \<longrightarrow> 0 < semaphore c"
  shows "\<exists>ph'. tasks (task_step net unzip i c) = (tasks c)[i := (f, ph')] \<and> weight ph' < weight ph"
proof (cases ph)
  case Pending
  with assms show ?thesis
    by (intro exI [of _ Downloading]) (simp add: task_step_def)
next
  case Downloading
  obtain r w where d: "download_file download_dir net f (shared c) = (r, w)"
    by (cases "download_file download_dir net f (shared c)")
  show ?thesis
  proof (cases r)
    case (Inr p)
    with assms Downloading d show ?thesis
      by (intro exI [of _ "Extracting p"]) (simp add: task_step_def)
  next
    case (Inl e)
    obtain m where "except_clauses f e w = (Inr (), log_error m w)"
      using except_clauses_message [of f e w] by blast
    with assms Downloading d Inl show ?thesis
      by (intro exI [of _ Done]) (simp add: task_step_def)
  qed
next
  case (Extracting p)
  obtain r w where x: "extract_zip_in_thread unzip download_dir p (shared c) = (r, w)"
    by (cases "extract_zip_in_thread unzip download_dir p (shared c)")
  show ?thesis
  proof (cases r)
    case (Inr u)
    with assms Extracting x show ?thesis
      by (intro exI [of _ Done]) (simp add: task_step_def)
  next
    case (Inl e)
    obtain m where "except_clauses f e w = (Inr (), log_error m w)"
      using except_clauses_message [of f e w] by blast
    with assms Extracting x Inl show ?thesis
      by (intro exI [of _ Done]) (simp add: task_step_def)
  qed
next
  case Done
  with assms show ?thesis by simp
next
  case (Escaped e)
  with assms show ?thesis by simp
qed

lemma exists_runnable:
  assumes "invariant w names c" and "\<not> list_all (\<lambda>(file_name, ph). ph = Done) (tasks c)"
  shows "\<exists>i f ph. i < length (tasks c) \<and> tasks c ! i = (f, ph) \<and> ph \<noteq> Done \<and>
    (\<forall>e. ph \<noteq> Escaped e) \<and> (ph = Pending \<longrightarrow> 0 < semaphore c)"
proof -
  from assms(1) have sem: "semaphore c + in_flight c = 5"
    and esc: "\<forall>t\<in>set (tasks c). \<forall>e. snd t \<noteq> Escaped e"
    by (simp_all add: invariant_def)
  have "\<exists>t\<in>set (tasks c). snd t \<noteq> Done \<and> (snd t = Pending \<longrightarrow> 0 < semaphore c)"
  proof (cases "semaphore c = 0")
    case True
    with sem have "filter (\<lambda>(file_name, ph). ph = Downloading) (tasks c) \<noteq> []"
      by (auto simp: in_flight_def)
    then obtain t where "t \<in> set (tasks c)" and "snd t = Downloading"
      by (auto simp: filter_empty_conv)
    then show ?thesis
      by (intro bexI [of _ t]) simp_all
  next
    case False
    from assms(2) obtain t where "t \<in> set (tasks c)" and "snd t \<noteq> Done"
      by (auto simp: list_all_iff)
    with False show ?thesis
      by (intro bexI [of _ t]) simp_all
  qed
  then obtain t where t: "t \<in> set (tasks c)" "snd t \<noteq> Done" "snd t = Pending \<longrightarrow> 0 < semaphore c"
    by blast
  then obtain i where i: "i < length (tasks c)" "tasks c ! i = t"
    by (auto simp: in_set_conv_nth)
  from t esc have "\<forall>e. snd t \<noteq> Escaped e" by blast
  with t i show ?thesis
    by (intro exI [of _ i] exI [of _ "fst t"] exI [of _ "snd t"]) simp
qed

lemma all_done_reachable:
  assumes "invariant w names c" and "main c = Gathering"
  shows "\<exists>schedule. main (run net unzip names schedule c) = Gathering \<and>
    list_all (\<lambda>(file_name, ph). ph = Done) (tasks (run net unzip names schedule c))"
  using assms
proof (induction "remaining c" arbitrary: c rule: less_induct)
  case less
  show ?case
  proof (cases "list_all (\<lambda>(file_name, ph). ph = Done) (tasks c)")
    case True
    with less.prems show ?thesis
      by (intro exI [of _ "[]"]) (simp add: run_def)
  next
    case False
    from exists_runnable [OF less.prems(1) False] obtain i f ph where
      i: "i < length (tasks c)" "tasks c ! i = (f, ph)" "ph \<noteq> Done" "\<forall>e. ph \<noteq> Escaped e"
        "ph = Pending \<longrightarrow> 0 < semaphore c"
      by blast
    let ?c' = "task_step net unzip i c"
    from task_step_progress [OF i, of net unzip] obtain ph' where
      T: "tasks ?c' = (tasks c)[i := (f, ph')]" and W: "weight ph' < weight ph"
      by blast
    have "remaining ?c' + weight ph = remaining c + weight ph'"
      using sum_update [OF i(1), of "\<lambda>(file_name, ph). weight ph" "(f, ph')"] i(2) T
      by (simp add: remaining_def)
    with W have smaller: "remaining ?c' < remaining c"
      by simp
    have inv: "invariant w names ?c'"
      using less.prems(1) by (rule invariant_task_step)
    have "main ?c' = Gathering"
      using task_step_summary [OF i(1,2), of net unzip] less.prems(2) by auto
    from less.hyps [OF smaller inv this] obtain schedule where
      "main (run net unzip names schedule ?c') = Gathering"
      "list_all (\<lambda>(file_name, ph). ph = Done) (tasks (run net unzip names schedule ?c'))"
      by blast
    then show ?thesis
      by (intro exI [of _ "Task i # schedule"]) (simp add: run_Cons)
  qed
qed

lemma returned_reachable:
  assumes "invariant w names c"
  shows "\<exists>schedule. main (run net unzip names schedule c) = Returned"
proof -
  have gather: "\<exists>schedule. main (run net unzip names schedule c') = Returned"
    if inv: "invariant w names c'" and g: "main c' = Gathering" for c'
  proof -
    from all_done_reachable [OF inv g, of net unzip] obtain schedule where
      s: "main (run net unzip names schedule c') = Gathering"
        "list_all (\<lambda>(file_name, ph). ph = Done) (tasks (run net unzip names schedule c'))"
      by blast
    let ?d = "run net unzip names schedule c'"
    have "invariant w names ?d"
      using inv by (rule invariant_run_from)
    with s(1) have "escaped (tasks ?d) = None"
      by (simp add: invariant_def escaped_None)
    with s have "main (main_step names ?d) = Returned"
      by (simp add: main_step_def)
    then show ?thesis
      by (intro exI [of _ "schedule @ [Main]"]) (simp add: run_append run_def)
  qed
  show ?thesis
  proof (cases "main c")
    case NotStarted
    have "invariant w names (main_step names c)"
      using assms by (rule invariant_main_step)
    moreover from NotStarted have "main (main_step names c) = Gathering"
      by (simp add: main_step_def)
    ultimately obtain schedule where
      "main (run net unzip names schedule (main_step names c)) = Returned"
      using gather by blast
    then show ?thesis
      by (intro exI [of _ "Main # schedule"]) (simp add: run_Cons)
  next
    case Gathering
    with assms show ?thesis by (rule gather)
  next
    case Returned
    then show ?thesis
      by (intro exI [of _ "[]"]) (simp add: run_def)
  next
    case (Aborted e)
    with assms show ?thesis
      by (simp add: invariant_def)
  qed
qed

subsection \<open>The steps of one coroutine\<close>


lemma task_step_pending:
  assumes "i < length (tasks c)" and "tasks c ! i = (f, Pending)"
  shows "shared (task_step net unzip i c) = shared c \<and>
    (semaphore c = 0 \<longrightarrow> task_step net unzip i c = c) \<and>
    (0 < semaphore c \<longrightarrow>
       semaphore (task_step net unzip i c) = semaphore c - 1 \<and>
       tasks (task_step net unzip i c) = (tasks c)[i := (f, Downloading)])"
  using assms by (simp add: task_step_def)

lemma task_step_downloading:
  assumes "i < length (tasks c)" and "tasks c ! i = (f, Downloading)"
  shows "semaphore (task_step net unzip i c) = semaphore c + 1 \<and>
    (case download_file download_dir net f (shared c) of
       (Inr p, w) \<Rightarrow>
         tasks (task_step net unzip i c) = (tasks c)[i := (f, Extracting p)] \<and>
         shared (task_step net unzip i c) = w
     | (Inl e, w) \<Rightarrow>
         tasks (task_step net unzip i c) = (tasks c)[i := (f, Done)] \<and>
         shared (task_step net unzip i c) = snd (except_clauses f e w))"
proof -
  obtain r w where d: "download_file download_dir net f (shared c) = (r, w)"
    by (cases "download_file download_dir net f (shared c)")
  show ?thesis
  proof (cases r)
    case (Inr p)
    with assms d show ?thesis by (simp add: task_step_def)
  next
    case (Inl e)
    obtain m where "except_clauses f e w = (Inr (), log_error m w)"
      using except_clauses_message [of f e w] by blast
    with assms d Inl show ?thesis by (simp add: task_step_def)
  qed
qed

lemma task_step_extracting:
  assumes "i < length (tasks c)" and "tasks c ! i = (f, Extracting p)"
  shows "semaphore (task_step net unzip i c) = semaphore c \<and>
    tasks (task_step net unzip i c) = (tasks c)[i := (f, Done)] \<and>
    (case extract_zip_in_thread unzip download_dir p (shared c) of
       (Inr u, w) \<Rightarrow> shared (task_step net unzip i c) = log_info (Processed f) w
     | (Inl e, w) \<Rightarrow> shared (task_step net unzip i c) = snd (except_clauses f e w))"
proof -
  obtain r w where x: "extract_zip_in_thread unzip download_dir p (shared c) = (r, w)"
    by (cases "extract_zip_in_thread unzip download_dir p (shared c)")
  show ?thesis
  proof (cases r)
    case (Inr u)
    with assms x show ?thesis by (simp add: task_step_def)
  next
    case (Inl e)
    obtain m where "except_clauses f e w = (Inr (), log_error m w)"
      using except_clauses_message [of f e w] by blast
    with assms x Inl show ?thesis by (simp add: task_step_def)
  qed
qed



lemma six_started:
  "run divvy_server unzip_nothing FILE_NAMES [Main, Task 0, Task 1, Task 2, Task 3, Task 4, Task 5]
     (init_controller empty_world) =
   \<lparr>shared = log_info Starting empty_world, semaphore = 0,
    tasks = [(''Divvy_Trips_2018_Q4.zip'', Downloading), (''Divvy_Trips_2019_Q1.zip'', Downloading),
             (''Divvy_Trips_2019_Q2.zip'', Downloading), (''Divvy_Trips_2019_Q3.zip'', Downloading),
             (''Divvy_Trips_2019_Q4.zip'', Downloading), (''Divvy_Trips_2020_Q1.zip'', Pending),
             (''Divvy_Trips_2220_Q1.zip'', Pending)],
    main = Gathering\<rparr>"
  by (simp add: run_def main_step_def task_step_def init_controller_def FILE_NAMES_def)

lemma in_turn_log:
  "main (run divvy_server unzip_nothing FILE_NAMES in_turn (init_controller empty_world)) = Returned \<and>
   logged (shared (run divvy_server unzip_nothing FILE_NAMES in_turn (init_controller empty_world))) =
     [(INFO, Starting),
      (ERROR, NotFoundAfterRetries ''Divvy_Trips_2220_Q1.zip''),
      (INFO, Processed ''Divvy_Trips_2020_Q1.zip''),
      (INFO, Processed ''Divvy_Trips_2019_Q4.zip''),
      (INFO, Processed ''Divvy_Trips_2019_Q3.zip''),
      (INFO, Processed ''Divvy_Trips_2019_Q2.zip''),
      (INFO, Processed ''Divvy_Trips_2019_Q1.zip''),
      (INFO, Processed ''Divvy_Trips_2018_Q4.zip''),
      (INFO, Finished)]"
  by code_simp

lemma one_by_one_log:
  "main (run divvy_server unzip_nothing FILE_NAMES one_by_one (init_controller empty_world)) = Returned \<and>
   logged (shared (run divvy_server unzip_nothing FILE_NAMES one_by_one (init_controller empty_world))) =
     [(INFO, Starting),
      (INFO, Processed ''Divvy_Trips_2018_Q4.zip''),
      (INFO, Processed ''Divvy_Trips_2019_Q1.zip''),
      (INFO, Processed ''Divvy_Trips_2019_Q2.zip''),
      (INFO, Processed ''Divvy_Trips_2019_Q3.zip''),
      (INFO, Processed ''Divvy_Trips_2019_Q4.zip''),
      (INFO, Processed ''Divvy_Trips_2020_Q1.zip''),
      (ERROR, NotFoundAfterRetries ''Divvy_Trips_2220_Q1.zip''),
      (INFO, Finished)]"
  by code_simp

section \<open>Claims about a run\<close>

subsection \<open>C4: the download slots\<close>

text \<open>
  C4. In every state that a run of \<^verbatim>\<open>process_files\<close> reaches, under every schedule, at
  most 5 downloads are in flight, and the slots taken from the semaphore are exactly those
  of the coroutines that are downloading. A pending coroutine touches nothing before it
  has a slot: it waits while the counter is 0 and otherwise takes one slot and starts its
  download. The step that ends the download gives the slot back, whether the download
  returned or raised, and leaves the coroutine either extracting or done; the extraction
  step does not touch the semaphore.
\<close>

theorem download_slots_bounded:
  "in_flight (run net unzip names schedule (init_controller w)) \<le> 5 \<and>
   semaphore (run net unzip names schedule (init_controller w)) +
     in_flight (run net unzip names schedule (init_controller w)) = 5 \<and>
   (i < length (tasks c) \<and> tasks c ! i = (f, Pending) \<longrightarrow>
      shared (task_step net unzip i c) = shared c \<and>
      (semaphore c = 0 \<longrightarrow> task_step net unzip i c = c) \<and>
      (0 < semaphore c \<longrightarrow>
         semaphore (task_step net unzip i c) = semaphore c - 1 \<and>
         tasks (task_step net unzip i c) = (tasks c)[i := (f, Downloading)])) \<and>
   (i < length (tasks c) \<and> tasks c ! i = (f, Downloading) \<longrightarrow>
      semaphore (task_step net unzip i c) = semaphore c + 1 \<and>
      (case download_file download_dir net f (shared c) of
         (Inr zip_path, w') \<Rightarrow>
           tasks (task_step net unzip i c) = (tasks c)[i := (f, Extracting zip_path)] \<and>
           shared (task_step net unzip i c) = w'
       | (Inl e, w') \<Rightarrow>
           tasks (task_step net unzip i c) = (tasks c)[i := (f, Done)] \<and>
           shared (task_step net unzip i c) = snd (except_clauses f e w'))) \<and>
   (i < length (tasks c) \<and> tasks c ! i = (f, Extracting p) \<longrightarrow>
      semaphore (task_step net unzip i c) = semaphore c \<and>
      tasks (task_step net unzip i c) = (tasks c)[i := (f, Done)])"
proof -
  have "invariant w names (run net unzip names schedule (init_controller w))"
    by (rule invariant_run)
  then have "semaphore (run net unzip names schedule (init_controller w)) +
      in_flight (run net unzip names schedule (init_controller w)) = 5"
    by (simp add: invariant_def)
  then show ?thesis
    using task_step_pending [where i = i and c = c and f = f and net = net and unzip = unzip]
      task_step_downloading [where i = i and c = c and f = f and net = net and unzip = unzip]
      task_step_extracting [where i = i and c = c and f = f and p = p and net = net and unzip = unzip]
    by simp
qed

theorem download_slots_bounded_witness:
  "in_flight (run divvy_server unzip_nothing FILE_NAMES
      [Main, Task 0, Task 1, Task 2, Task 3, Task 4, Task 5] (init_controller empty_world)) = 5 \<and>
   semaphore (run divvy_server unzip_nothing FILE_NAMES
      [Main, Task 0, Task 1, Task 2, Task 3, Task 4, Task 5] (init_controller empty_world)) = 0 \<and>
   tasks (run divvy_server unzip_nothing FILE_NAMES
      [Main, Task 0, Task 1, Task 2, Task 3, Task 4, Task 5] (init_controller empty_world)) ! 5 =
     (''Divvy_Trips_2020_Q1.zip'', Pending) \<and>
   task_step divvy_server unzip_nothing 5 (run divvy_server unzip_nothing FILE_NAMES
      [Main, Task 0, Task 1, Task 2, Task 3, Task 4, Task 5] (init_controller empty_world)) =
     run divvy_server unzip_nothing FILE_NAMES
      [Main, Task 0, Task 1, Task 2, Task 3, Task 4, Task 5] (init_controller empty_world) \<and>
   tasks (run divvy_server unzip_nothing FILE_NAMES [Main] (init_controller empty_world)) ! 0 =
     (''Divvy_Trips_2018_Q4.zip'', Pending) \<and>
   semaphore (run divvy_server unzip_nothing FILE_NAMES [Main, Task 0] (init_controller empty_world)) = 4 \<and>
   tasks (run divvy_server unzip_nothing FILE_NAMES [Main, Task 0] (init_controller empty_world)) ! 0 =
     (''Divvy_Trips_2018_Q4.zip'', Downloading) \<and>
   semaphore (run divvy_server unzip_nothing FILE_NAMES [Main, Task 0, Task 0] (init_controller empty_world)) = 5 \<and>
   tasks (run divvy_server unzip_nothing FILE_NAMES [Main, Task 0, Task 0] (init_controller empty_world)) ! 0 =
     (''Divvy_Trips_2018_Q4.zip'', Extracting ''downloads/Divvy_Trips_2018_Q4.zip'') \<and>
   semaphore (run divvy_server unzip_nothing FILE_NAMES [Main, Task 0, Task 0, Task 0] (init_controller empty_world)) = 5 \<and>
   tasks (run divvy_server unzip_nothing FILE_NAMES [Main, Task 0, Task 0, Task 0] (init_controller empty_world)) ! 0 =
     (''Divvy_Trips_2018_Q4.zip'', Done)"
proof -
  let ?run = "\<lambda>schedule. run divvy_server unzip_nothing FILE_NAMES schedule (init_controller empty_world)"
  let ?six = "[Main, Task 0, Task 1, Task 2, Task 3, Task 4, Task 5]"
  let ?f = "''Divvy_Trips_2018_Q4.zip''"
  let ?p = "''downloads/Divvy_Trips_2018_Q4.zip''"
  have sem: "semaphore (?run ?six) = 0" and blocked: "tasks (?run ?six) ! 5 = (''Divvy_Trips_2020_Q1.zip'', Pending)"
    unfolding six_started by simp_all
  have l6: "5 < length (tasks (?run ?six))"
    unfolding six_started by simp
  note A = download_slots_bounded
    [where net = divvy_server and unzip = unzip_nothing and names = FILE_NAMES and schedule = ?six
       and w = empty_world and i = 5 and c = "?run ?six" and f = "''Divvy_Trips_2020_Q1.zip''" and p = ?p]
  from A sem have five: "in_flight (?run ?six) = 5"
    by simp
  from A sem blocked l6 have stay: "task_step divvy_server unzip_nothing 5 (?run ?six) = ?run ?six"
    by simp
  have c1: "tasks (?run [Main]) ! 0 = (?f, Pending)" "semaphore (?run [Main]) = 5" "0 < length (tasks (?run [Main]))"
    by (simp_all add: run_def main_step_def init_controller_def FILE_NAMES_def)
  have r1: "?run [Main, Task 0] = task_step divvy_server unzip_nothing 0 (?run [Main])"
    and r2: "?run [Main, Task 0, Task 0] = task_step divvy_server unzip_nothing 0 (?run [Main, Task 0])"
    and r3: "?run [Main, Task 0, Task 0, Task 0] = task_step divvy_server unzip_nothing 0 (?run [Main, Task 0, Task 0])"
    by (simp_all add: run_def)
  note B = download_slots_bounded
    [where net = divvy_server and unzip = unzip_nothing and names = FILE_NAMES and schedule = ?six
       and w = empty_world and i = 0 and c = "?run [Main]" and f = ?f and p = ?p]
  from B c1 have c2: "semaphore (?run [Main, Task 0]) = 4" "tasks (?run [Main, Task 0]) ! 0 = (?f, Downloading)"
    "0 < length (tasks (?run [Main, Task 0]))"
    unfolding r1 by simp_all
  have d: "download_file download_dir divvy_server ?f (shared (?run [Main, Task 0])) =
      (Inr ?p, snd (download_file download_dir divvy_server ?f (shared (?run [Main, Task 0]))))"
    by (simp add: download_file_unfold download_attempt_def download_try_def divvy_server_def
        respond_def BASE_URI_def os_path_join_def download_dir_def Let_def)
  note C = download_slots_bounded
    [where net = divvy_server and unzip = unzip_nothing and names = FILE_NAMES and schedule = ?six
       and w = empty_world and i = 0 and c = "?run [Main, Task 0]" and f = ?f and p = ?p]
  from C c2 d have c3: "semaphore (?run [Main, Task 0, Task 0]) = 5"
    "tasks (?run [Main, Task 0, Task 0]) ! 0 = (?f, Extracting ?p)"
    "0 < length (tasks (?run [Main, Task 0, Task 0]))"
    unfolding r2 by (simp_all split: prod.splits)
  note D = download_slots_bounded
    [where net = divvy_server and unzip = unzip_nothing and names = FILE_NAMES and schedule = ?six
       and w = empty_world and i = 0 and c = "?run [Main, Task 0, Task 0]" and f = ?f and p = ?p]
  from D c3 have c4: "semaphore (?run [Main, Task 0, Task 0, Task 0]) = 5"
    "tasks (?run [Main, Task 0, Task 0, Task 0]) ! 0 = (?f, Done)"
    unfolding r3 by simp_all
  from sem blocked five stay c1 c2 c3 c4 show ?thesis
    by simp
qed

subsection \<open>C7: waiting for all files\<close>

text \<open>
  C7. The first step of \<^verbatim>\<open>process_files\<close> creates the coroutines of all file names at
  once, none of them started. Under every schedule: before that step nothing is logged;
  while \<^verbatim>\<open>gather\<close> waits, the log is the start record followed by one record for each
  coroutine that is done; and when \<^verbatim>\<open>process_files\<close> has returned, every coroutine is
  done and the log is the start record, then exactly one record about each file name, in
  the order in which the coroutines finished, then the finish record.
  \<^verbatim>\<open>process_files\<close> never ends with an exception, and from every state a run reaches it
  can still return.
\<close>

theorem process_files_waits_for_all:
  "tasks (run net unzip names [Main] (init_controller w)) = map (\<lambda>file_name. (file_name, Pending)) names \<and>
   (main (run net unzip names schedule (init_controller w)) = NotStarted \<longrightarrow>
      logged (shared (run net unzip names schedule (init_controller w))) = logged w) \<and>
   (main (run net unzip names schedule (init_controller w)) = Gathering \<longrightarrow>
      (\<exists>items. logged (shared (run net unzip names schedule (init_controller w))) =
           logged w @ (INFO, Starting) # items \<and>
         mset (map (subject \<circ> snd) items) =
           mset (map Some (done_names (run net unzip names schedule (init_controller w)))))) \<and>
   (main (run net unzip names schedule (init_controller w)) = Returned \<longrightarrow>
      map fst (tasks (run net unzip names schedule (init_controller w))) = names \<and>
      list_all (\<lambda>(file_name, ph). ph = Done) (tasks (run net unzip names schedule (init_controller w))) \<and>
      (\<exists>items. logged (shared (run net unzip names schedule (init_controller w))) =
           logged w @ (INFO, Starting) # items @ [(INFO, Finished)] \<and>
         mset (map (subject \<circ> snd) items) = mset (map Some names) \<and>
         length items = length names)) \<and>
   main (run net unzip names schedule (init_controller w)) \<noteq> Aborted e \<and>
   (\<exists>rest. main (run net unzip names (schedule @ rest) (init_controller w)) = Returned)"
proof -
  let ?c = "run net unzip names schedule (init_controller w)"
  have inv: "invariant w names ?c"
    by (rule invariant_run)
  have first: "tasks (run net unzip names [Main] (init_controller w)) =
      map (\<lambda>file_name. (file_name, Pending)) names"
    by (simp add: run_def main_step_def init_controller_def)
  have returned: "\<exists>items. logged (shared ?c) = logged w @ (INFO, Starting) # items @ [(INFO, Finished)] \<and>
      mset (map (subject \<circ> snd) items) = mset (map Some names) \<and> length items = length names"
    if "main ?c = Returned"
  proof -
    from inv that obtain items where
      l: "logged (shared ?c) = logged w @ (INFO, Starting) # items @ [(INFO, Finished)]"
      and m: "mset (map (subject \<circ> snd) items) = mset (map Some names)"
      by (auto simp: invariant_def)
    from m have "size (mset (map (subject \<circ> snd) items)) = size (mset (map Some names))"
      by simp
    then have "length items = length names"
      by simp
    with l m show ?thesis by blast
  qed
  from returned_reachable [OF inv, of net unzip] obtain rest where
    "main (run net unzip names rest ?c) = Returned"
    by blast
  then have progress: "\<exists>rest. main (run net unzip names (schedule @ rest) (init_controller w)) = Returned"
    by (intro exI [of _ rest]) (simp add: run_append)
  from inv have "main ?c \<noteq> Aborted e"
    by (auto simp: invariant_def)
  moreover from inv have "main ?c = NotStarted \<longrightarrow> logged (shared ?c) = logged w"
    by (auto simp: invariant_def)
  moreover from inv have "main ?c = Gathering \<longrightarrow>
      (\<exists>items. logged (shared ?c) = logged w @ (INFO, Starting) # items \<and>
         mset (map (subject \<circ> snd) items) = mset (map Some (done_names ?c)))"
    by (auto simp: invariant_def)
  moreover from inv have "main ?c = Returned \<longrightarrow>
      map fst (tasks ?c) = names \<and> list_all (\<lambda>(file_name, ph). ph = Done) (tasks ?c)"
    by (auto simp: invariant_def)
  ultimately show ?thesis
    using first returned progress by blast
qed

theorem process_files_waits_for_all_witness:
  "main (run divvy_server unzip_nothing FILE_NAMES in_turn (init_controller empty_world)) = Returned \<and>
   map fst (tasks (run divvy_server unzip_nothing FILE_NAMES in_turn (init_controller empty_world))) = FILE_NAMES \<and>
   list_all (\<lambda>(file_name, ph). ph = Done)
     (tasks (run divvy_server unzip_nothing FILE_NAMES in_turn (init_controller empty_world))) \<and>
   logged (shared (run divvy_server unzip_nothing FILE_NAMES in_turn (init_controller empty_world))) =
     [(INFO, Starting),
      (ERROR, NotFoundAfterRetries ''Divvy_Trips_2220_Q1.zip''),
      (INFO, Processed ''Divvy_Trips_2020_Q1.zip''),
      (INFO, Processed ''Divvy_Trips_2019_Q4.zip''),
      (INFO, Processed ''Divvy_Trips_2019_Q3.zip''),
      (INFO, Processed ''Divvy_Trips_2019_Q2.zip''),
      (INFO, Processed ''Divvy_Trips_2019_Q1.zip''),
      (INFO, Processed ''Divvy_Trips_2018_Q4.zip''),
      (INFO, Finished)] \<and>
   main (run divvy_server unzip_nothing FILE_NAMES one_by_one (init_controller empty_world)) = Returned \<and>
   logged (shared (run divvy_server unzip_nothing FILE_NAMES one_by_one (init_controller empty_world))) =
     [(INFO, Starting),
      (INFO, Processed ''Divvy_Trips_2018_Q4.zip''),
      (INFO, Processed ''Divvy_Trips_2019_Q1.zip''),
      (INFO, Processed ''Divvy_Trips_2019_Q2.zip''),
      (INFO, Processed ''Divvy_Trips_2019_Q3.zip''),
      (INFO, Processed ''Divvy_Trips_2019_Q4.zip''),
      (INFO, Processed ''Divvy_Trips_2020_Q1.zip''),
      (ERROR, NotFoundAfterRetries ''Divvy_Trips_2220_Q1.zip''),
      (INFO, Finished)] \<and>
   main (run divvy_server unzip_nothing FILE_NAMES [Main, Task 0] (init_controller empty_world)) = Gathering \<and>
   main (run divvy_server unzip_nothing FILE_NAMES [Task 0] (init_controller empty_world)) = NotStarted"
proof -
  note A = process_files_waits_for_all
    [where net = divvy_server and unzip = unzip_nothing and names = FILE_NAMES and schedule = in_turn
       and w = empty_world]
  have g: "main (run divvy_server unzip_nothing FILE_NAMES [Main, Task 0] (init_controller empty_world)) = Gathering"
    and n: "main (run divvy_server unzip_nothing FILE_NAMES [Task 0] (init_controller empty_world)) = NotStarted"
    by (simp_all add: run_def main_step_def task_step_def init_controller_def FILE_NAMES_def)
  from A in_turn_log
  have "map fst (tasks (run divvy_server unzip_nothing FILE_NAMES in_turn (init_controller empty_world))) = FILE_NAMES"
    and "list_all (\<lambda>(file_name, ph). ph = Done)
      (tasks (run divvy_server unzip_nothing FILE_NAMES in_turn (init_controller empty_world)))"
    by blast+
  with in_turn_log one_by_one_log g n show ?thesis
    by blast
qed

subsection \<open>C2: one report for each file\<close>



end
